theory Spec2Isabelle
  imports Main "HOL-Library.Multiset"
begin

section \<open>Tables of the model-training notebook\<close>

text \<open>
  The notebook \<^verbatim>\<open>src/Notebooks/ModelTraining.ipynb\<close> works on pandas tables read
  from CSV files. It reads six columns by name: \<^verbatim>\<open>entryID\<close>, \<^verbatim>\<open>machineID\<close>,
  \<^verbatim>\<open>cycle\<close>, \<^verbatim>\<open>sequenceID\<close>, \<^verbatim>\<open>rul\<close> and \<^verbatim>\<open>failure\<close>; every other column is a
  sensor feature that no cell of the notebook inspects. A row is a record with these
  fields. \<^verbatim>\<open>rul\<close> is a numeric column with missing values, so a cell of it is a number
  or NaN (\<open>None\<close>); \<^verbatim>\<open>failure\<close> is read with \<^verbatim>\<open>converters={"failure": str}\<close>, so a
  cell of it is always a string, the empty string where the file has nothing.
\<close>

record row =
  entryID :: int
  machineID :: string
  cycle :: int
  sequenceID :: int
  rul :: "int option"
  failure :: string
  sensors :: "(string \<times> int) list"

section \<open>Label assignment\<close>

text \<open>
  \<^verbatim>\<open>f = lambda row: row.failure if row.rul and row.rul < w else ''\<close>

  \<^verbatim>\<open>row.rul and row.rul < w\<close> first takes the truth value of the cell: NaN is true
  in Python, the number zero is false. The comparison of NaN with a number is false.
\<close>

definition truth_value :: "int option \<Rightarrow> bool" where
  "truth_value x = (case x of None \<Rightarrow> True | Some n \<Rightarrow> n \<noteq> 0)"

definition less_than :: "int option \<Rightarrow> int \<Rightarrow> bool" where
  "less_than x w = (case x of None \<Rightarrow> False | Some n \<Rightarrow> n < w)"

definition xy_f :: "int \<Rightarrow> row \<Rightarrow> string" where
  "xy_f w r = (if truth_value (rul r) \<and> less_than (rul r) w then failure r else '''')"

section \<open>Frames\<close>

text \<open>
  A pandas frame has an index, column labels and rows. \<open>index\<close> is the name of the
  column that has been moved into the index (\<open>None\<close> for the default positional
  index), \<open>columns\<close> are the labels of the columns the frame still has. The rows keep
  their fields whatever the labels are; \<open>to_records\<close> below reads a frame the way
  \<^verbatim>\<open>to_json(orient='records')\<close> writes it, one object per row with one field per
  column label.
\<close>

record 'r frame =
  index :: "string option"
  columns :: "string list"
  rows :: "'r list"

datatype val = Num int | NaN | Str string

datatype error = KeyError string | ValueError string | NameError string
  | InsufficientSamplesError string nat

definition cell :: "row \<Rightarrow> string \<Rightarrow> val option" where
  "cell r c =
     (if c = ''entryID'' then Some (Num (entryID r))
      else if c = ''machineID'' then Some (Str (machineID r))
      else if c = ''cycle'' then Some (Num (cycle r))
      else if c = ''sequenceID'' then Some (Num (sequenceID r))
      else if c = ''rul'' then Some (case rul r of None \<Rightarrow> NaN | Some n \<Rightarrow> Num n)
      else if c = ''failure'' then Some (Str (failure r))
      else map_option Num (map_of (sensors r) c))"

definition to_records :: "row frame \<Rightarrow> (string \<times> val option) list list" where
  "to_records df = map (\<lambda>r. map (\<lambda>c. (c, cell r c)) (columns df)) (rows df)"

text \<open>
  \<^verbatim>\<open>df.set_index([c])\<close> moves column \<open>c\<close> into the index and raises KeyError when
  the frame has no such column. \<^verbatim>\<open>df.reset_index()\<close> moves a named index back in
  front of the columns (the default index becomes a column labelled \<^verbatim>\<open>index\<close>);
  \<^verbatim>\<open>df.reset_index(drop=True)\<close> throws the index away. \<^verbatim>\<open>df.drop(cs, axis=1)\<close>
  removes the columns \<open>cs\<close> and raises KeyError when one of them is missing.
\<close>

definition set_index :: "string \<Rightarrow> 'r frame \<Rightarrow> error + 'r frame" where
  "set_index c df =
     (if c \<in> set (columns df)
      then Inr (df\<lparr>index := Some c, columns := remove1 c (columns df)\<rparr>)
      else Inl (KeyError c))"

definition reset_index :: "'r frame \<Rightarrow> 'r frame" where
  "reset_index df =
     (case index df of
        Some c \<Rightarrow> df\<lparr>index := None, columns := c # columns df\<rparr>
      | None \<Rightarrow> df\<lparr>columns := ''index'' # columns df\<rparr>)"

definition reset_index_drop :: "'r frame \<Rightarrow> 'r frame" where
  "reset_index_drop df = df\<lparr>index := None\<rparr>"

definition drop_columns :: "string list \<Rightarrow> 'r frame \<Rightarrow> error + 'r frame" where
  "drop_columns cs df =
     (case filter (\<lambda>c. c \<notin> set (columns df)) cs of
        [] \<Rightarrow> Inr (df\<lparr>columns := filter (\<lambda>c. c \<notin> set cs) (columns df)\<rparr>)
      | c # _ \<Rightarrow> Inl (KeyError c))"

text \<open>
  \<^verbatim>\<open>data.sort_index()\<close> is called on a frame indexed by \<^verbatim>\<open>entryID\<close> only: the rows
  are put in the order of their \<^verbatim>\<open>entryID\<close>. (\<open>sort_key\<close> keeps rows of equal
  \<^verbatim>\<open>entryID\<close> in their order; pandas need not, but \<^verbatim>\<open>entryID\<close> identifies a row.)
\<close>

definition sort_index :: "row frame \<Rightarrow> row frame" where
  "sort_index df = df\<lparr>rows := sort_key entryID (rows df)\<rparr>"

text \<open>\<^verbatim>\<open>Series.unique()\<close>: the values in the order of their first appearance.\<close>

definition unique :: "'a list \<Rightarrow> 'a list" where
  "unique xs = rev (remdups (rev xs))"

text \<open>
  \<^verbatim>\<open>df.groupby(['machineID']).cycle\<close>: one group of cycle values per machine. The
  groups are only read through \<^verbatim>\<open>join(..., on='machineID')\<close>, which looks a machine
  up, so their order is of no account.
\<close>

definition groupby_cycle :: "row list \<Rightarrow> (string \<times> int list) list" where
  "groupby_cycle rs =
     map (\<lambda>m. (m, map cycle (filter (\<lambda>r. machineID r = m) rs))) (unique (map machineID rs))"

text \<open>
  \<^verbatim>\<open>df.join(table.to_frame(name='max_cycle'), on='machineID')\<close>: a left join; every row
  gets the \<^verbatim>\<open>max_cycle\<close> of its machine, NaN (\<open>None\<close>) when the table has no entry
  for it. The joined frame pairs each row with the cell of the new column. pandas
  raises ValueError when the frame already has a column of that name.
\<close>

definition join_on_machineID ::
  "row frame \<Rightarrow> (string \<times> int) list \<Rightarrow> error + (row \<times> int option) frame" where
  "join_on_machineID df table =
     (if ''max_cycle'' \<in> set (columns df)
      then Inl (ValueError ''columns overlap but no suffix specified'')
      else Inr \<lparr>index = index df, columns = columns df @ [''max_cycle''],
                rows = map (\<lambda>r. (r, map_of table (machineID r))) (rows df)\<rparr>)"

definition select :: "('r \<Rightarrow> bool) \<Rightarrow> 'r frame \<Rightarrow> 'r frame" where
  "select keep df = df\<lparr>rows := filter keep (rows df)\<rparr>"

definition drop_max_cycle :: "(row \<times> int option) frame \<Rightarrow> row frame" where
  "drop_max_cycle df =
     \<lparr>index = index df, columns = remove1 ''max_cycle'' (columns df),
      rows = map fst (rows df)\<rparr>"

definition isna :: "int option \<Rightarrow> bool" where
  "isna x = (x = None)"

section \<open>Elimination of possible false negatives\<close>

text \<open>
  \<^verbatim>\<open>
  max_cycles = combined_df.join(
      combined_df[(combined_df.rul.isna())]
      .groupby(['machineID'], as_index=False).cycle
      .agg(['max', 'count']).apply(
          lambda x: x['max'] - min(x['count'], w), axis = 1)
      .to_frame(name='max_cycle'), on='machineID')

  data = max_cycles[max_cycles.max_cycle.isna() |
                    (max_cycles.cycle <= max_cycles.max_cycle)
                   ].drop('max_cycle', axis=1)
  \<close>
  The aggregate of a column grouped by \<^verbatim>\<open>machineID\<close> is indexed by the machine, and
  this is the index the join looks \<^verbatim>\<open>machineID\<close> up in. \<^verbatim>\<open>max\<close> is the greatest
  cycle of a group and \<^verbatim>\<open>count\<close> the number of its cycles; a group is never empty.
  A machine with no null \<^verbatim>\<open>rul\<close> is not in the aggregate, the join gives its rows
  NaN for \<^verbatim>\<open>max_cycle\<close>, and the selection keeps them; so it is for every row of a
  table where no record has a null \<^verbatim>\<open>rul\<close>. A comparison with NaN is false.
\<close>

definition agg_max_count :: "(string \<times> int list) list \<Rightarrow> (string \<times> int \<times> int) list" where
  "agg_max_count groups = map (\<lambda>(m, cs). (m, Max (set cs), int (length cs))) groups"

definition max_cycle_table :: "int \<Rightarrow> row list \<Rightarrow> (string \<times> int) list" where
  "max_cycle_table w rs =
     map (\<lambda>(m, mx, count). (m, mx - min count w))
       (agg_max_count (groupby_cycle (filter (\<lambda>r. isna (rul r)) rs)))"

definition max_cycles :: "int \<Rightarrow> row frame \<Rightarrow> error + (row \<times> int option) frame" where
  "max_cycles w combined_df =
     join_on_machineID combined_df (max_cycle_table w (rows combined_df))"

definition le_cell :: "int \<Rightarrow> int option \<Rightarrow> bool" where
  "le_cell c x = (case x of None \<Rightarrow> False | Some mc \<Rightarrow> c \<le> mc)"

definition lt_cell :: "int \<Rightarrow> int option \<Rightarrow> bool" where
  "lt_cell c x = (case x of None \<Rightarrow> False | Some mc \<Rightarrow> c < mc)"

definition false_negative_filter :: "int \<Rightarrow> row frame \<Rightarrow> error + row frame" where
  "false_negative_filter w combined_df =
     (case max_cycles w combined_df of
        Inl e \<Rightarrow> Inl e
      | Inr joined \<Rightarrow>
          Inr (drop_max_cycle
                 (select (\<lambda>(r, max_cycle). isna max_cycle \<or> le_cell (cycle r) max_cycle)
                    joined)))"

section \<open>Train/test split\<close>

text \<open>
  \<^verbatim>\<open>train_test_split\<close> belongs to scikit-learn. With a fraction \<^verbatim>\<open>test_size\<close> it
  takes \<open>n_test = ceil(test_size * n)\<close> samples for the test side and the other
  \<open>n - n_test\<close> for the train side. The fraction is given here as \<open>p / q\<close>
  (\<^verbatim>\<open>test_size = 0.2\<close> is \<open>1 / 5\<close>). Without shuffling the train side is the first
  \<open>n_train\<close> rows and the test side the rows after them; with shuffling the library
  draws a permutation of the positions from the seed, takes its first \<open>n_test\<close>
  positions for the test side and the next \<open>n_train\<close> for the train side. The
  permutation drawn is the parameter \<open>perm\<close>, a permutation of \<open>[0..<n]\<close>. The
  library raises ValueError for a fraction outside \<open>(0, 1)\<close> and when no sample is left
  for the train side. (It multiplies in floating point, and its older releases return
  an empty train side instead of raising; what is returned when both return is the
  same.)
\<close>

definition n_test_of :: "nat \<Rightarrow> nat \<Rightarrow> nat \<Rightarrow> nat" where
  "n_test_of p q n = (p * n + q - 1) div q"

definition validate_shuffle_split :: "nat \<Rightarrow> nat \<Rightarrow> nat \<Rightarrow> error + (nat \<times> nat)" where
  "validate_shuffle_split p q n =
     (if p = 0 \<or> q \<le> p then Inl (ValueError ''test_size should be in the (0, 1) range'')
      else (let n_test = n_test_of p q n;
                n_train = n - n_test
            in if n_train = 0 then Inl (ValueError ''the resulting train set will be empty'')
               else Inr (n_train, n_test)))"

definition train_test_split_ordered ::
  "nat \<Rightarrow> nat \<Rightarrow> 'a list \<Rightarrow> error + ('a list \<times> 'a list)" where
  "train_test_split_ordered p q xs =
     (case validate_shuffle_split p q (length xs) of
        Inl e \<Rightarrow> Inl e
      | Inr (n_train, n_test) \<Rightarrow> Inr (take n_train xs, take n_test (drop n_train xs)))"

definition train_test_split_shuffled ::
  "nat list \<Rightarrow> nat \<Rightarrow> nat \<Rightarrow> 'a list \<Rightarrow> error + ('a list \<times> 'a list)" where
  "train_test_split_shuffled perm p q xs =
     (case validate_shuffle_split p q (length xs) of
        Inl e \<Rightarrow> Inl e
      | Inr (n_train, n_test) \<Rightarrow>
          Inr (map (\<lambda>i. xs ! i) (take n_train (drop n_test perm)),
               map (\<lambda>i. xs ! i) (take n_test perm)))"

text \<open>
  The time-dependent branch:
  \<^verbatim>\<open>
  data.set_index(['entryID'], inplace=True)
  data.sort_index(inplace=True)
  train, test = train_test_split(data, test_size=test_size, shuffle=False)
  min_cycles = test.reset_index().groupby(
      ['machineID']
  ).cycle.min().apply(lambda x: x - lookback).to_frame(name='max_cycle')
  t = train.reset_index().join(min_cycles, on='machineID')
  train = t[t.max_cycle.isna() |
            (t.cycle < t.max_cycle)].drop('max_cycle', axis=1)
  train.set_index(['entryID'], inplace=True)
  \<close>
  The first two lines change \<^verbatim>\<open>data\<close> itself; \<open>index_and_sort\<close> gives its new
  value.
\<close>

definition index_and_sort :: "row frame \<Rightarrow> error + row frame" where
  "index_and_sort data =
     (case set_index ''entryID'' data of
        Inl e \<Rightarrow> Inl e
      | Inr data \<Rightarrow> Inr (sort_index data))"

definition min_cycles :: "int \<Rightarrow> row frame \<Rightarrow> (string \<times> int) list" where
  "min_cycles lookback test =
     map (\<lambda>(m, cs). (m, Min (set cs) - lookback)) (groupby_cycle (rows (reset_index test)))"

definition time_split_sorted ::
  "int \<Rightarrow> nat \<Rightarrow> nat \<Rightarrow> row frame \<Rightarrow> error + (row frame \<times> row frame)" where
  "time_split_sorted lookback p q data =
     (case train_test_split_ordered p q (rows data) of
        Inl e \<Rightarrow> Inl e
      | Inr (train_rows, test_rows) \<Rightarrow>
          (let train = data\<lparr>rows := train_rows\<rparr>;
               test = data\<lparr>rows := test_rows\<rparr>
           in case join_on_machineID (reset_index train) (min_cycles lookback test) of
                Inl e \<Rightarrow> Inl e
              | Inr t \<Rightarrow>
                  (let train = drop_max_cycle
                         (select (\<lambda>(r, max_cycle). isna max_cycle \<or> lt_cell (cycle r) max_cycle) t)
                   in case set_index ''entryID'' train of
                        Inl e \<Rightarrow> Inl e
                      | Inr train \<Rightarrow> Inr (train, test))))"

definition time_split ::
  "int \<Rightarrow> nat \<Rightarrow> nat \<Rightarrow> row frame \<Rightarrow> error + (row frame \<times> row frame)" where
  "time_split lookback p q data =
     (case index_and_sort data of
        Inl e \<Rightarrow> Inl e
      | Inr data \<Rightarrow> time_split_sorted lookback p q data)"

text \<open>
  The asset ID-based branch:
  \<^verbatim>\<open>
  unique_assets = data.reset_index().machineID.unique()
  train_assets, test_assets = train_test_split(
      unique_assets, test_size=test_size, random_state=seed)
  train = data[data.machineID.isin(train_assets)]
  test = data[data.machineID.isin(test_assets)]
  train.set_index(['entryID'], inplace=True)
  test.set_index(['entryID'], inplace=True)
  \<close>
\<close>

definition asset_split ::
  "nat list \<Rightarrow> nat \<Rightarrow> nat \<Rightarrow> row frame \<Rightarrow> error + (row frame \<times> row frame)" where
  "asset_split perm p q data =
     (let unique_assets = unique (map machineID (rows (reset_index data)))
      in case train_test_split_shuffled perm p q unique_assets of
           Inl e \<Rightarrow> Inl e
         | Inr (train_assets, test_assets) \<Rightarrow>
             (let train = select (\<lambda>r. machineID r \<in> set train_assets) data;
                  test = select (\<lambda>r. machineID r \<in> set test_assets) data
              in case set_index ''entryID'' train of
                   Inl e \<Rightarrow> Inl e
                 | Inr train \<Rightarrow>
                     (case set_index ''entryID'' test of
                        Inl e \<Rightarrow> Inl e
                      | Inr test \<Rightarrow> Inr (train, test))))"

section \<open>Features and labels\<close>

text \<open>
  \<^verbatim>\<open>
  def xy(data, w):
      data = data.reset_index(drop = True)
      f = lambda row: row.failure if row.rul and row.rul < w else ''
      columns_to_drop = ['cycle', 'failure', 'rul', 'sequenceID', 'machineID']
      return (data.drop(columns_to_drop, axis=1),
              data.apply(f, axis=1))
  \<close>
\<close>

definition columns_to_drop :: "string list" where
  "columns_to_drop = [''cycle'', ''failure'', ''rul'', ''sequenceID'', ''machineID'']"

definition xy :: "row frame \<Rightarrow> int \<Rightarrow> error + (row frame \<times> string list)" where
  "xy data w =
     (let data = reset_index_drop data
      in case drop_columns columns_to_drop data of
           Inl e \<Rightarrow> Inl e
         | Inr X \<Rightarrow> Inr (X, map (xy_f w) (rows data)))"

section \<open>The cell that splits\<close>

text \<open>
  \<^verbatim>\<open>if time_split: ... else: ...\<close> with \<^verbatim>\<open>lookback\<close>, \<^verbatim>\<open>test_size\<close> and the
  permutation that \<^verbatim>\<open>random_state=seed\<close> draws.
\<close>

definition split_data ::
  "bool \<Rightarrow> int \<Rightarrow> nat list \<Rightarrow> nat \<Rightarrow> nat \<Rightarrow> row frame \<Rightarrow> error + (row frame \<times> row frame)" where
  "split_data time_dependent lookback perm p q data =
     (if time_dependent then time_split lookback p q data else asset_split perm p q data)"

text \<open>
  What the leakage rule speaks of: the least cycle a machine has on the test side, the
  rows before the split point of the table sorted by \<^verbatim>\<open>entryID\<close>, and the rows from
  it on.
\<close>

definition min_test_cycle :: "row frame \<Rightarrow> string \<Rightarrow> int" where
  "min_test_cycle test m = Min (set (map cycle (filter (\<lambda>r. machineID r = m) (rows test))))"

definition candidate_train :: "nat \<Rightarrow> nat \<Rightarrow> row frame \<Rightarrow> row list" where
  "candidate_train p q data =
     take (length (rows data) - n_test_of p q (length (rows data)))
       (sort_key entryID (rows data))"

definition held_out :: "nat \<Rightarrow> nat \<Rightarrow> row frame \<Rightarrow> row list" where
  "held_out p q data =
     take (n_test_of p q (length (rows data)))
       (drop (length (rows data) - n_test_of p q (length (rows data)))
          (sort_key entryID (rows data)))"

definition of_machine :: "string \<Rightarrow> row list \<Rightarrow> row list" where
  "of_machine m rs = filter (\<lambda>r. machineID r = m) rs"

section \<open>Correction of data imbalance\<close>

text \<open>
  \<^verbatim>\<open>
  sm = SMOTE(random_state=seed)
  X_train_res, Y_train_res = sm.fit_sample(X_train, Y_train)
  \<close>
\<close>

text \<open>
  Modelled from the spec: \<^verbatim>\<open>SMOTE.fit_sample\<close> belongs to the imbalanced-learn
  library and is not in the repository. The specification of the Class Balancer says:
  every class gets equal cardinality, equal to the majority class's original count, by
  synthetic samples made per minority class; a class with fewer samples than the
  neighbour count \<open>k\<close> the algorithm requires makes it fail with
  InsufficientSamplesError, naming the class and its count. \<open>majority_count\<close> is the
  greatest number of labels a class has. The synthetic samples are drawn by
  interpolation from the seed; \<open>synth c n\<close> stands for the samples drawn for class
  \<open>c\<close>, of which \<open>n\<close> are added.
\<close>

definition majority_count :: "string list \<Rightarrow> nat" where
  "majority_count Y = fold max (map (count_list Y) Y) 0"

definition fit_sample ::
  "nat \<Rightarrow> (string \<Rightarrow> nat \<Rightarrow> row list) \<Rightarrow> row frame \<Rightarrow> string list
     \<Rightarrow> error + (row frame \<times> string list)" where
  "fit_sample k synth X Y =
     (case filter (\<lambda>c. count_list Y c < k) (unique Y) of
        c # _ \<Rightarrow> Inl (InsufficientSamplesError c (count_list Y c))
      | [] \<Rightarrow>
          (let n = majority_count Y;
               minority = filter (\<lambda>c. count_list Y c < n) (unique Y)
           in Inr (X\<lparr>rows := rows X @
                       concat (map (\<lambda>c. take (n - count_list Y c) (synth c (n - count_list Y c)))
                                 minority)\<rparr>,
                   Y @ concat (map (\<lambda>c. replicate (n - count_list Y c) c) minority))))"

section \<open>Reading input data\<close>

text \<open>
  \<^verbatim>\<open>
  dfs= [pd.read_csv(filename, converters=converters) for filename in filenames]
  combined_df = pd.concat(dfs, ignore_index=True)
  \<close>
  The files may have any columns, so a row of a source table is the list of its cells
  by column label. \<^verbatim>\<open>pd.concat\<close> raises ValueError for an empty list of tables.
  Otherwise it aligns the tables on the union of their column labels, fills the cells a
  table lacks with NaN, and puts the rows one table after the other under a fresh
  positional index. (Releases of pandas differ in the order they give the labels of the
  union when the tables disagree; \<open>unique\<close> is the order of first appearance.)
\<close>

type_synonym cells = "(string \<times> val) list"

definition reindex :: "string list \<Rightarrow> cells \<Rightarrow> cells" where
  "reindex cs r = map (\<lambda>c. (c, case map_of r c of None \<Rightarrow> NaN | Some v \<Rightarrow> v)) cs"

definition pd_concat :: "cells frame list \<Rightarrow> error + cells frame" where
  "pd_concat dfs =
     (if dfs = [] then Inl (ValueError ''No objects to concatenate'')
      else (let cs = unique (concat (map columns dfs))
            in Inr \<lparr>index = None, columns = cs,
                     rows = concat (map (\<lambda>df. map (reindex cs) (rows df)) dfs)\<rparr>))"

definition well_formed :: "cells frame \<Rightarrow> bool" where
  "well_formed df = (distinct (columns df) \<and> list_all (\<lambda>r. map fst r = columns df) (rows df))"

section \<open>The notebook's variables\<close>

text \<open>
  The notebook keeps its tables in global variables. A variable names an object; a
  pandas call either makes a new object or, with \<^verbatim>\<open>inplace=True\<close>, changes the object
  it is called on. The store holds the objects by address and the address each name
  is bound to (the latest binding first).
\<close>

datatype obj = Frame "row frame" | Series "string list"

record store =
  heap :: "obj list"
  names :: "(string \<times> nat) list"

definition new_object :: "string \<Rightarrow> obj \<Rightarrow> store \<Rightarrow> store" where
  "new_object x ob s = s\<lparr>heap := heap s @ [ob], names := (x, length (heap s)) # names s\<rparr>"

definition in_place :: "nat \<Rightarrow> obj \<Rightarrow> store \<Rightarrow> store" where
  "in_place a ob s = s\<lparr>heap := (heap s)[a := ob]\<rparr>"

definition frame_of :: "store \<Rightarrow> string \<Rightarrow> error + (nat \<times> row frame)" where
  "frame_of s x =
     (case map_of (names s) x of
        None \<Rightarrow> Inl (NameError x)
      | Some a \<Rightarrow>
          (if a < length (heap s)
           then (case heap s ! a of
                   Frame df \<Rightarrow> Inr (a, df)
                 | Series _ \<Rightarrow> Inl (ValueError x))
           else Inl (NameError x)))"

definition series_of :: "store \<Rightarrow> string \<Rightarrow> error + (nat \<times> string list)" where
  "series_of s x =
     (case map_of (names s) x of
        None \<Rightarrow> Inl (NameError x)
      | Some a \<Rightarrow>
          (if a < length (heap s)
           then (case heap s ! a of
                   Series Y \<Rightarrow> Inr (a, Y)
                 | Frame _ \<Rightarrow> Inl (ValueError x))
           else Inl (NameError x)))"

text \<open>
  Cell 3: \<^verbatim>\<open>data\<close> becomes a new frame made from \<^verbatim>\<open>combined_df\<close>.
\<close>

definition eliminate_false_negatives :: "int \<Rightarrow> store \<Rightarrow> error + store" where
  "eliminate_false_negatives w s =
     (case frame_of s ''combined_df'' of
        Inl e \<Rightarrow> Inl e
      | Inr (a, combined_df) \<Rightarrow>
          (case false_negative_filter w combined_df of
             Inl e \<Rightarrow> Inl e
           | Inr data \<Rightarrow> Inr (new_object ''data'' (Frame data) s)))"

text \<open>
  Cell 4: the time-dependent branch first changes the object \<^verbatim>\<open>data\<close> names
  (\<^verbatim>\<open>set_index\<close> and \<^verbatim>\<open>sort_index\<close> with \<^verbatim>\<open>inplace=True\<close>); both branches then bind
  \<^verbatim>\<open>train\<close> and \<^verbatim>\<open>test\<close> to new frames.
\<close>

definition train_test ::
  "bool \<Rightarrow> int \<Rightarrow> nat list \<Rightarrow> nat \<Rightarrow> nat \<Rightarrow> store \<Rightarrow> error + store" where
  "train_test time_dependent lookback perm p q s =
     (case frame_of s ''data'' of
        Inl e \<Rightarrow> Inl e
      | Inr (a, data) \<Rightarrow>
          (if time_dependent
           then (case index_and_sort data of
                   Inl e \<Rightarrow> Inl e
                 | Inr data \<Rightarrow>
                     (let s = in_place a (Frame data) s
                      in case time_split_sorted lookback p q data of
                           Inl e \<Rightarrow> Inl e
                         | Inr (train, test) \<Rightarrow>
                             Inr (new_object ''test'' (Frame test)
                                    (new_object ''train'' (Frame train) s))))
           else (case asset_split perm p q data of
                   Inl e \<Rightarrow> Inl e
                 | Inr (train, test) \<Rightarrow>
                     Inr (new_object ''test'' (Frame test)
                            (new_object ''train'' (Frame train) s)))))"

text \<open>
  Cell 5: \<^verbatim>\<open>X_train, Y_train = xy(train, w)\<close> and \<^verbatim>\<open>X_test, Y_test = xy(test, w)\<close>.
  Inside \<^verbatim>\<open>xy\<close> the name \<^verbatim>\<open>data\<close> is a local one.
\<close>

definition label_assignment :: "int \<Rightarrow> store \<Rightarrow> error + store" where
  "label_assignment w s =
     (case frame_of s ''train'' of
        Inl e \<Rightarrow> Inl e
      | Inr (a, train) \<Rightarrow>
          (case xy train w of
             Inl e \<Rightarrow> Inl e
           | Inr (X_train, Y_train) \<Rightarrow>
               (let s = new_object ''Y_train'' (Series Y_train)
                          (new_object ''X_train'' (Frame X_train) s)
                in case frame_of s ''test'' of
                     Inl e \<Rightarrow> Inl e
                   | Inr (b, test) \<Rightarrow>
                       (case xy test w of
                          Inl e \<Rightarrow> Inl e
                        | Inr (X_test, Y_test) \<Rightarrow>
                            Inr (new_object ''Y_test'' (Series Y_test)
                                   (new_object ''X_test'' (Frame X_test) s))))))"

text \<open>
  Cell 7: \<^verbatim>\<open>X_train_res, Y_train_res = sm.fit_sample(X_train, Y_train)\<close>.
\<close>

definition correct_imbalance ::
  "nat \<Rightarrow> (string \<Rightarrow> nat \<Rightarrow> row list) \<Rightarrow> store \<Rightarrow> error + store" where
  "correct_imbalance k synth s =
     (case frame_of s ''X_train'' of
        Inl e \<Rightarrow> Inl e
      | Inr (a, X_train) \<Rightarrow>
          (case series_of s ''Y_train'' of
             Inl e \<Rightarrow> Inl e
           | Inr (b, Y_train) \<Rightarrow>
               (case fit_sample k synth X_train Y_train of
                  Inl e \<Rightarrow> Inl e
                | Inr (X_train_res, Y_train_res) \<Rightarrow>
                    Inr (new_object ''Y_train_res'' (Series Y_train_res)
                           (new_object ''X_train_res'' (Frame X_train_res) s)))))"

section \<open>Runs of a machine\<close>







section \<open>Example tables\<close>

text \<open>
  A small table in the layout of the feature files: machine \<^verbatim>\<open>M1\<close> runs up to a
  failure \<^verbatim>\<open>F1\<close>, machine \<^verbatim>\<open>M2\<close> has not failed. The rows are not in the order
  of their \<^verbatim>\<open>entryID\<close>.
\<close>

definition example_row :: "int \<Rightarrow> string \<Rightarrow> int \<Rightarrow> int option \<Rightarrow> string \<Rightarrow> row" where
  "example_row e m c r f =
     \<lparr>entryID = e, machineID = m, cycle = c, sequenceID = 1, rul = r, failure = f,
      sensors = [(''s1'', 1000)]\<rparr>"

definition example_df :: "row frame" where
  "example_df =
     \<lparr>index = None,
      columns = [''entryID'', ''machineID'', ''cycle'', ''sequenceID'', ''rul'', ''failure'',
                 ''s1''],
      rows = [example_row 9 ''M1'' 50 (Some 1) ''F1'',
              example_row 3 ''M1'' 44 (Some 7) ''F1'',
              example_row 1 ''M2'' 1 None [],
              example_row 4 ''M1'' 45 (Some 6) ''F1'',
              example_row 10 ''M1'' 51 (Some 0) ''F1'',
              example_row 2 ''M2'' 2 None [],
              example_row 5 ''M1'' 46 (Some 5) ''F1'',
              example_row 6 ''M1'' 47 (Some 4) ''F1'',
              example_row 7 ''M1'' 48 (Some 3) ''F1'',
              example_row 8 ''M1'' 49 (Some 2) ''F1'']\<rparr>"






text \<open>
  A larger table: machine \<^verbatim>\<open>M1\<close> runs twenty cycles up to a failure \<^verbatim>\<open>F1\<close>,
  machine \<^verbatim>\<open>M2\<close> has run nine cycles and not failed.
\<close>

definition example_fleet :: "row frame" where
  "example_fleet =
     \<lparr>index = None,
      columns = [''entryID'', ''machineID'', ''cycle'', ''sequenceID'', ''rul'', ''failure'',
                 ''s1''],
      rows = map (\<lambda>i. example_row i ''M1'' i (Some (20 - i)) ''F1'') [1..20]
             @ map (\<lambda>i. example_row (20 + i) ''M2'' i None []) [1..9]\<rparr>"

definition example_fleet_store :: store where
  "example_fleet_store = \<lparr>heap = [Frame example_fleet], names = [(''combined_df'', 0)]\<rparr>"

text \<open>
  The notebook in \<^verbatim>\<open>src/src/build.proj\<close> has the same cells as
  \<^verbatim>\<open>ModelTraining.ipynb\<close> but the false-negative filter, and its first cell reads
  \<^verbatim>\<open>data = pd.concat(dfs, ignore_index=True)\<close>: there \<^verbatim>\<open>data\<close> names the loaded
  table itself.
\<close>

definition example_loaded_as_data :: store where
  "example_loaded_as_data = \<lparr>heap = [Frame example_df], names = [(''data'', 0)]\<rparr>"

definition example_labels :: "string list" where
  "example_labels = [[], [], [], ''F1'', ''F2'', ''F2'']"

definition example_synth :: "string \<Rightarrow> nat \<Rightarrow> row list" where
  "example_synth c n = replicate n (example_row 0 [] 0 None c)"

definition source_a :: "cells frame" where
  "source_a =
     \<lparr>index = None, columns = [''entryID'', ''machineID'', ''cycle'', ''rul''],
      rows = [[(''entryID'', Num 1), (''machineID'', Str ''M1''), (''cycle'', Num 1),
               (''rul'', Num 5)]]\<rparr>"

definition source_b :: "cells frame" where
  "source_b =
     \<lparr>index = None, columns = [''entryID'', ''machineID'', ''cycle''],
      rows = [[(''entryID'', Num 2), (''machineID'', Str ''M2''), (''cycle'', Num 1)]]\<rparr>"

section \<open>Properties of the label assignment\<close>

lemma xy_f_failure_iff:
  "xy_f w r = (if \<exists>n. rul r = Some n \<and> n \<noteq> 0 \<and> n < w then failure r else [])"
  by (cases "rul r") (simp_all add: xy_f_def truth_value_def less_than_def)

lemma xy_f_at_horizon: "rul r = Some w \<Longrightarrow> xy_f w r = []"
  by (simp add: xy_f_def less_than_def)

lemma xy_f_below_horizon: "rul r = Some (w - 1) \<Longrightarrow> 1 < w \<Longrightarrow> xy_f w r = failure r"
  by (simp add: xy_f_def less_than_def truth_value_def)

lemma xy_f_null: "rul r = None \<Longrightarrow> xy_f w r = []"
  by (simp add: xy_f_def less_than_def)

text \<open>
  Claim C1. A record whose \<^verbatim>\<open>rul\<close> is not null and below the horizon is to get its
  failure code as label, and every other record the empty label. The record with
  \<^verbatim>\<open>rul = 0\<close>, failure code \<^verbatim>\<open>F1\<close> and horizon 7 gets the empty label: zero is
  false in \<^verbatim>\<open>row.rul and row.rul < w\<close>. At horizon 1 this is the record with
  \<^verbatim>\<open>rul = w - 1\<close>.
\<close>

theorem xy_f_zero_rul:
  "xy_f 7 (example_row 10 ''M1'' 51 (Some 0) ''F1'') = []
   \<and> xy_f 1 (example_row 10 ''M1'' 51 (Some (1 - 1)) ''F1'') = []
   \<and> failure (example_row 10 ''M1'' 51 (Some 0) ''F1'') = ''F1''"
  by (simp add: xy_f_def truth_value_def example_row_def)

section \<open>Frame operations\<close>

lemma map_fst_filter_join:
  "map fst (filter (\<lambda>(r, x). P r x) (map (\<lambda>r. (r, g r)) xs)) = filter (\<lambda>r. P r (g r)) xs"
  by (induction xs) auto

lemma set_unique [simp]: "set (unique xs) = set xs"
  by (simp add: unique_def)

lemma distinct_unique [simp]: "distinct (unique xs)"
  by (simp add: unique_def)

lemma map_of_keyed:
  "map_of (map (\<lambda>k. (k, h k)) ks) m = (if m \<in> set ks then Some (h m) else None)"
  by (induction ks) auto

lemma groupby_cycle_lookup:
  "map_of (map (\<lambda>(m, cs). (m, h cs)) (groupby_cycle rs)) m =
     (if m \<in> machineID ` set rs
      then Some (h (map cycle (filter (\<lambda>r. machineID r = m) rs))) else None)"
proof -
  have "map (\<lambda>(m, cs). (m, h cs)) (groupby_cycle rs) =
        map (\<lambda>k. (k, h (map cycle (filter (\<lambda>r. machineID r = k) rs)))) (unique (map machineID rs))"
    by (simp add: groupby_cycle_def)
  then show ?thesis
    by (simp add: map_of_keyed)
qed

lemma rows_reset_index [simp]: "rows (reset_index df) = rows df"
  by (simp add: reset_index_def split: option.splits)

lemma rows_set_index: "set_index c df = Inr df' \<Longrightarrow> rows df' = rows df"
  by (auto simp: set_index_def split: if_splits)

lemma index_set_index: "set_index c df = Inr df' \<Longrightarrow> index df' = Some c"
  by (auto simp: set_index_def split: if_splits)

lemma rows_join:
  "join_on_machineID df table = Inr t \<Longrightarrow>
     rows t = map (\<lambda>r. (r, map_of table (machineID r))) (rows df)"
  by (auto simp: join_on_machineID_def split: if_splits)

section \<open>The time-dependent split\<close>

lemma min_cycles_lookup:
  "map_of (min_cycles lookback test) m =
     (if m \<in> machineID ` set (rows test)
      then Some (min_test_cycle test m - lookback)
      else None)"
  unfolding min_cycles_def min_test_cycle_def
  using groupby_cycle_lookup [of "\<lambda>cs. Min (set cs) - lookback" "rows test" m] by simp

lemma validate_shuffle_split_sizes:
  assumes "validate_shuffle_split p q n = Inr (n_train, n_test)"
  shows "n_test = n_test_of p q n" and "n_train = n - n_test" and "0 < n_train"
  using assms by (auto simp: validate_shuffle_split_def Let_def split: if_splits)

lemma train_test_split_ordered_sides:
  assumes "train_test_split_ordered p q xs = Inr (a, b)"
  shows "a = take (length xs - n_test_of p q (length xs)) xs"
    and "b = take (n_test_of p q (length xs)) (drop (length xs - n_test_of p q (length xs)) xs)"
proof -
  from assms obtain n_train n_test where
    v: "validate_shuffle_split p q (length xs) = Inr (n_train, n_test)"
    and a: "a = take n_train xs" and b: "b = take n_test (drop n_train xs)"
    by (auto simp: train_test_split_ordered_def split: sum.splits)
  note sizes = validate_shuffle_split_sizes [OF v]
  show "a = take (length xs - n_test_of p q (length xs)) xs"
    by (simp only: a sizes(1,2))
  show "b = take (n_test_of p q (length xs)) (drop (length xs - n_test_of p q (length xs)) xs)"
    by (simp only: b sizes(1,2))
qed

lemma time_split_rows:
  assumes "time_split lookback p q data = Inr (train, test)"
  shows "rows test = held_out p q data"
    and "rows train =
         filter (\<lambda>r. isna (map_of (min_cycles lookback test) (machineID r))
                     \<or> lt_cell (cycle r) (map_of (min_cycles lookback test) (machineID r)))
           (candidate_train p q data)"
proof -
  from assms obtain d a b t tr where
    d: "set_index ''entryID'' data = Inr d"
    and ab: "train_test_split_ordered p q (sort_key entryID (rows d)) = Inr (a, b)"
    and test: "test = (sort_index d)\<lparr>rows := b\<rparr>"
    and t: "join_on_machineID (reset_index ((sort_index d)\<lparr>rows := a\<rparr>))
              (min_cycles lookback test) = Inr t"
    and tr: "set_index ''entryID'' (drop_max_cycle
               (select (\<lambda>(r, max_cycle). isna max_cycle \<or> lt_cell (cycle r) max_cycle) t))
             = Inr train"
    by (auto simp: time_split_def index_and_sort_def time_split_sorted_def Let_def
        sort_index_def split: sum.splits prod.splits)
  have rd: "rows d = rows data" using d by (rule rows_set_index)
  note sides = train_test_split_ordered_sides [OF ab]
  show "rows test = held_out p q data"
    by (simp add: test sides(2) held_out_def rd)
  have "rows t = map (\<lambda>r. (r, map_of (min_cycles lookback test) (machineID r))) a"
    using rows_join [OF t] by simp
  then have "rows train =
         filter (\<lambda>r. isna (map_of (min_cycles lookback test) (machineID r))
                     \<or> lt_cell (cycle r) (map_of (min_cycles lookback test) (machineID r))) a"
    using rows_set_index [OF tr]
    by (simp add: drop_max_cycle_def select_def map_fst_filter_join)
  then show "rows train =
         filter (\<lambda>r. isna (map_of (min_cycles lookback test) (machineID r))
                     \<or> lt_cell (cycle r) (map_of (min_cycles lookback test) (machineID r)))
           (candidate_train p q data)"
    by (simp add: sides(1) candidate_train_def rd)
qed

lemma validate_shuffle_split_succeeds:
  assumes "0 < p" and "p < q" and "n_test_of p q n < n"
  shows "\<exists>n_train n_test. validate_shuffle_split p q n = Inr (n_train, n_test)"
  using assms by (simp add: validate_shuffle_split_def Let_def)

lemma time_split_succeeds:
  assumes "''entryID'' \<in> set (columns data)" and "''max_cycle'' \<notin> set (columns data)"
    and "0 < p" and "p < q" and "n_test_of p q (length (rows data)) < length (rows data)"
  shows "\<exists>train test. time_split lookback p q data = Inr (train, test)"
proof -
  have "''max_cycle'' \<notin> set (remove1 ''entryID'' (columns data))"
    using assms(2) by (meson notin_set_remove1)
  moreover from validate_shuffle_split_succeeds [OF assms(3,4,5)] obtain n_train n_test
    where "validate_shuffle_split p q (length (rows data)) = Inr (n_train, n_test)" by blast
  ultimately show ?thesis
    using assms(1)
    by (simp add: time_split_def index_and_sort_def time_split_sorted_def set_index_def Let_def
        sort_index_def reset_index_def join_on_machineID_def select_def drop_max_cycle_def
        train_test_split_ordered_def)
qed

text \<open>
  Claim C2. When the time-ordered split returns a train and a test set, the test set
  is the part of the table sorted by \<^verbatim>\<open>entryID\<close> from the split point on. No train
  record of a machine with a test record has a cycle at or above that machine's least
  test cycle less \<^verbatim>\<open>lookback\<close>. The train records of the machines with no test
  record are the ones before the split point, none dropped and none changed.
\<close>

theorem time_split_no_leak:
  assumes split: "time_split lookback p q data = Inr (train, test)"
  shows "rows test = held_out p q data
       \<and> (\<forall>r \<in> set (rows train). machineID r \<in> machineID ` set (rows test) \<longrightarrow>
              \<not> cycle r \<ge> min_test_cycle test (machineID r) - lookback)
       \<and> filter (\<lambda>r. machineID r \<notin> machineID ` set (rows test)) (rows train) =
         filter (\<lambda>r. machineID r \<notin> machineID ` set (rows test)) (candidate_train p q data)"
proof -
  note rs = time_split_rows [OF split]
  have leak: "\<not> cycle r \<ge> min_test_cycle test (machineID r) - lookback"
    if "r \<in> set (rows train)" "machineID r \<in> machineID ` set (rows test)" for r
    using that unfolding rs(2)
    by (simp add: min_cycles_lookup isna_def lt_cell_def)
  have kept: "filter (\<lambda>r. machineID r \<notin> machineID ` set (rows test)) (rows train) =
             filter (\<lambda>r. machineID r \<notin> machineID ` set (rows test)) (candidate_train p q data)"
    unfolding rs(2) filter_filter
    by (rule filter_cong) (auto simp: min_cycles_lookup isna_def)
  from rs(1) leak kept show ?thesis by blast
qed

theorem time_split_no_leak_witness:
  "\<exists>train test. time_split 5 1 5 example_df = Inr (train, test)
     \<and> rows test = held_out 1 5 example_df
     \<and> map entryID (rows test) = [9, 10]
     \<and> min_test_cycle test ''M1'' = 50
     \<and> map cycle (of_machine ''M1'' (rows train)) = [44]
     \<and> list_all (\<lambda>r. machineID r \<in> machineID ` set (rows test) \<longrightarrow>
                        \<not> cycle r \<ge> min_test_cycle test (machineID r) - 5) (rows train)
     \<and> map entryID (of_machine ''M2'' (rows train)) = [1, 2]
     \<and> map entryID (of_machine ''M2'' (candidate_train 1 5 example_df)) = [1, 2]"
proof -
  let ?split = "projr (time_split 5 1 5 example_df)"
  let ?train = "fst ?split" and ?test = "snd ?split"
  have r: "time_split 5 1 5 example_df = Inr (?train, ?test)" by code_simp
  have e1: "map entryID (rows ?test) = [9, 10]" by code_simp
  have e2: "min_test_cycle ?test ''M1'' = 50" by code_simp
  have e3: "map cycle (of_machine ''M1'' (rows ?train)) = [44]" by code_simp
  have e4: "map entryID (of_machine ''M2'' (rows ?train)) = [1, 2]" by code_simp
  have e5: "map entryID (of_machine ''M2'' (candidate_train 1 5 example_df)) = [1, 2]"
    by code_simp
  note c = time_split_no_leak [OF r]
  from c have c1: "rows ?test = held_out 1 5 example_df"
    by (rule conjunct1)
  from c have "\<forall>r \<in> set (rows ?train). machineID r \<in> machineID ` set (rows ?test) \<longrightarrow>
                  \<not> cycle r \<ge> min_test_cycle ?test (machineID r) - 5"
    by (elim conjE)
  then have c2: "list_all (\<lambda>r. machineID r \<in> machineID ` set (rows ?test) \<longrightarrow>
                        \<not> cycle r \<ge> min_test_cycle ?test (machineID r) - 5) (rows ?train)"
    by (simp only: list_all_iff)
  from r c1 e1 e2 e3 c2 e4 e5 show ?thesis
    by (intro exI conjI)
qed

section \<open>The two splits\<close>

lemma asset_split_rows:
  assumes "asset_split perm p q data = Inr (train, test)"
  obtains train_assets test_assets where
    "train_test_split_shuffled perm p q (unique (map machineID (rows data)))
       = Inr (train_assets, test_assets)"
    and "rows train = filter (\<lambda>r. machineID r \<in> set train_assets) (rows data)"
    and "rows test = filter (\<lambda>r. machineID r \<in> set test_assets) (rows data)"
  using assms
  by (auto simp: asset_split_def Let_def select_def split: prod.splits sum.splits
      dest!: rows_set_index)

lemma shuffled_split_sides:
  assumes perm: "mset perm = mset [0..<length xs]" and dist: "distinct xs"
    and split: "train_test_split_shuffled perm p q xs = Inr (a, b)"
  shows "set a \<inter> set b = {}" and "set a \<union> set b = set xs"
proof -
  define k where "k = n_test_of p q (length xs)"
  from split obtain n_train n_test where
    v: "validate_shuffle_split p q (length xs) = Inr (n_train, n_test)"
    and a: "a = map (\<lambda>i. xs ! i) (take n_train (drop n_test perm))"
    and b: "b = map (\<lambda>i. xs ! i) (take n_test perm)"
    by (auto simp: train_test_split_shuffled_def split: sum.splits)
  from validate_shuffle_split_sizes [OF v]
  have nt: "n_test = k" and ntr: "n_train = length xs - k"
    by (simp_all add: k_def)
  have dperm: "distinct perm"
    using perm by (metis distinct_upt mset_eq_imp_distinct_iff)
  have sperm: "set perm = {0..<length xs}"
    using perm by (metis mset_eq_setD set_upt)
  have lperm: "length perm = length xs"
    using perm by (metis mset_eq_length length_upt diff_zero)
  have rest: "take (length xs - k) (drop k perm) = drop k perm"
    by (simp add: lperm)
  have inj: "inj_on (\<lambda>i. xs ! i) (set perm)"
    unfolding sperm using dist by (simp add: inj_on_nth)
  have fst_eq: "set a = (\<lambda>i. xs ! i) ` set (drop k perm)"
    by (simp add: a nt ntr rest)
  have snd_eq: "set b = (\<lambda>i. xs ! i) ` set (take k perm)"
    by (simp add: b nt)
  have disj: "set (drop k perm) \<inter> set (take k perm) = {}"
    using dperm by (metis Int_commute append_take_drop_id distinct_append)
  have un: "set (drop k perm) \<union> set (take k perm) = set perm"
    by (metis Un_commute append_take_drop_id set_append)
  have subs: "set (drop k perm) \<subseteq> set perm" "set (take k perm) \<subseteq> set perm"
    by (auto dest: in_set_dropD in_set_takeD)
  show "set a \<inter> set b = {}"
    unfolding fst_eq snd_eq
    using inj_on_image_Int [OF inj subs] disj by simp
  have "(\<lambda>i. xs ! i) ` set perm = set xs"
    unfolding sperm by (metis atLeast0LessThan list.set_map map_nth set_upt)
  then show "set a \<union> set b = set xs"
    unfolding fst_eq snd_eq image_Un [symmetric] un by simp
qed

lemma mset_filter_disjoint_le:
  assumes "\<And>x. x \<in> set xs \<Longrightarrow> \<not> (P x \<and> Q x)"
  shows "mset (filter P xs) + mset (filter Q xs) \<subseteq># mset xs"
  using assms
proof (induction xs)
  case Nil
  then show ?case by simp
next
  case (Cons x xs)
  then have ih: "mset (filter P xs) + mset (filter Q xs) \<subseteq># mset xs" by simp
  from Cons.prems have "\<not> (P x \<and> Q x)" by simp
  with ih show ?case
    by (auto intro: subset_mset.order_trans)
qed

lemma distinct_map_sort_key:
  "distinct (map f (sort_key g xs)) = distinct (map f xs)"
proof -
  have "mset (map f (sort_key g xs)) = mset (map f xs)" by simp
  then show ?thesis by (rule mset_eq_imp_distinct_iff)
qed

lemma time_split_disjoint:
  assumes dist: "distinct (map entryID (rows data))"
    and split: "time_split lookback p q data = Inr (train, test)"
  shows "entryID ` set (rows train) \<inter> entryID ` set (rows test) = {}"
    and "mset (rows train) + mset (rows test) \<subseteq># mset (rows data)"
proof -
  define S where "S = sort_key entryID (rows data)"
  define k where "k = length (rows data) - n_test_of p q (length (rows data))"
  note rs = time_split_rows [OF split]
  have tr: "set (rows train) \<subseteq> set (take k S)"
    unfolding rs(2) candidate_train_def S_def k_def by auto
  have te: "set (rows test) \<subseteq> set (drop k S)"
    unfolding rs(1) held_out_def S_def k_def by (auto dest: in_set_takeD)
  have dS: "distinct (map entryID S)"
    unfolding S_def using dist by (simp add: distinct_map_sort_key)
  have "set (take k (map entryID S)) \<inter> set (drop k (map entryID S)) = {}"
    using dS by (rule set_take_disj_set_drop_if_distinct) simp
  then have "entryID ` set (take k S) \<inter> entryID ` set (drop k S) = {}"
    by (simp add: take_map drop_map)
  with tr te show "entryID ` set (rows train) \<inter> entryID ` set (rows test) = {}"
    by blast
  have "mset (rows train) \<subseteq># mset (take k S)"
    unfolding rs(2) candidate_train_def S_def k_def by simp
  moreover have "mset (rows test) \<subseteq># mset (drop k S)"
    unfolding rs(1) held_out_def S_def k_def
    by (metis append_take_drop_id mset_append mset_subset_eq_add_left)
  ultimately have "mset (rows train) + mset (rows test) \<subseteq># mset (take k S) + mset (drop k S)"
    by (rule subset_mset.add_mono)
  also have "\<dots> = mset S"
    by (metis append_take_drop_id mset_append)
  also have "\<dots> = mset (rows data)"
    by (simp add: S_def)
  finally show "mset (rows train) + mset (rows test) \<subseteq># mset (rows data)" .
qed

lemma asset_split_disjoint:
  assumes dist: "distinct (map entryID (rows data))"
    and perm: "mset perm = mset [0..<length (unique (map machineID (rows data)))]"
    and split: "asset_split perm p q data = Inr (train, test)"
  shows "entryID ` set (rows train) \<inter> entryID ` set (rows test) = {}"
    and "mset (rows train) + mset (rows test) \<subseteq># mset (rows data)"
proof -
  from split obtain train_assets test_assets where
    ab: "train_test_split_shuffled perm p q (unique (map machineID (rows data)))
           = Inr (train_assets, test_assets)"
    and rs: "rows train = filter (\<lambda>r. machineID r \<in> set train_assets) (rows data)"
      "rows test = filter (\<lambda>r. machineID r \<in> set test_assets) (rows data)"
    by (rule asset_split_rows)
  note sides = shuffled_split_sides [OF perm distinct_unique ab]
  have inj: "inj_on entryID (set (rows data))"
    using dist by (simp add: distinct_map)
  show "entryID ` set (rows train) \<inter> entryID ` set (rows test) = {}"
  proof (rule ccontr)
    assume "entryID ` set (rows train) \<inter> entryID ` set (rows test) \<noteq> {}"
    then obtain r r' where r: "r \<in> set (rows train)" and r': "r' \<in> set (rows test)"
      and eq: "entryID r = entryID r'" by auto
    from r r' have "r \<in> set (rows data)" "r' \<in> set (rows data)"
      unfolding rs by auto
    with inj eq have "r = r'" by (auto dest: inj_onD)
    with r r' sides(1) show False unfolding rs by auto
  qed
  show "mset (rows train) + mset (rows test) \<subseteq># mset (rows data)"
    unfolding rs
    by (rule mset_filter_disjoint_le) (use sides(1) in auto)
qed

lemma example_perm:
  "mset [1, 0] = mset [0..<length (unique (map machineID (rows example_df)))]"
proof -
  have "length (unique (map machineID (rows example_df))) = 2" by code_simp
  moreover have "[0..<2] = [0, Suc 0]" by (simp add: upt_rec)
  ultimately show ?thesis by simp
qed

text \<open>
  Claim C3. Under either split strategy, when the \<^verbatim>\<open>entryID\<close> values of the table
  are distinct, no \<^verbatim>\<open>entryID\<close> is both in the train and in the test set, and train
  and test together hold every record at most as often as the table does: records are
  dropped, never duplicated. The permutation is what the library draws for the asset
  ID-based split: a permutation of the positions of the distinct machines.
\<close>

theorem split_data_disjoint:
  assumes "distinct (map entryID (rows data))"
    and "mset perm = mset [0..<length (unique (map machineID (rows data)))]"
    and "split_data time_dependent lookback perm p q data = Inr (train, test)"
  shows "entryID ` set (rows train) \<inter> entryID ` set (rows test) = {}
         \<and> mset (rows train) + mset (rows test) \<subseteq># mset (rows data)"
proof (cases time_dependent)
  case True
  with assms(3) have "time_split lookback p q data = Inr (train, test)"
    by (simp add: split_data_def)
  from time_split_disjoint [OF assms(1) this] show ?thesis by simp
next
  case False
  with assms(3) have "asset_split perm p q data = Inr (train, test)"
    by (simp add: split_data_def)
  from asset_split_disjoint [OF assms(1,2) this] show ?thesis by simp
qed

theorem split_data_disjoint_witness:
  "distinct (map entryID (rows example_df))
   \<and> mset [1, 0] = mset [0..<length (unique (map machineID (rows example_df)))]
   \<and> (\<exists>train test. split_data True 5 [1, 0] 1 5 example_df = Inr (train, test)
         \<and> entryID ` set (rows train) \<inter> entryID ` set (rows test) = {}
         \<and> mset (rows train) + mset (rows test) \<subseteq># mset (rows example_df)
         \<and> map entryID (rows train) = [1, 2, 3] \<and> map entryID (rows test) = [9, 10])
   \<and> (\<exists>train test. split_data False 5 [1, 0] 1 5 example_df = Inr (train, test)
         \<and> entryID ` set (rows train) \<inter> entryID ` set (rows test) = {}
         \<and> mset (rows train) + mset (rows test) \<subseteq># mset (rows example_df)
         \<and> map entryID (rows train) = [9, 3, 4, 10, 5, 6, 7, 8]
         \<and> map entryID (rows test) = [1, 2])"
proof -
  have h1: "distinct (map entryID (rows example_df))" by code_simp
  note h2 = example_perm
  have "case split_data True 5 [1, 0] 1 5 example_df of
          Inl e \<Rightarrow> False
        | Inr (train, test) \<Rightarrow>
            map entryID (rows train) = [1, 2, 3] \<and> map entryID (rows test) = [9, 10]"
    by code_simp
  then obtain train test where
    t: "split_data True 5 [1, 0] 1 5 example_df = Inr (train, test)"
    "map entryID (rows train) = [1, 2, 3]" "map entryID (rows test) = [9, 10]"
    by (auto split: sum.splits)
  have "case split_data False 5 [1, 0] 1 5 example_df of
          Inl e \<Rightarrow> False
        | Inr (train, test) \<Rightarrow>
            map entryID (rows train) = [9, 3, 4, 10, 5, 6, 7, 8]
            \<and> map entryID (rows test) = [1, 2]"
    by code_simp
  then obtain train' test' where
    a: "split_data False 5 [1, 0] 1 5 example_df = Inr (train', test')"
    "map entryID (rows train') = [9, 3, 4, 10, 5, 6, 7, 8]" "map entryID (rows test') = [1, 2]"
    by (auto split: sum.splits)
  from split_data_disjoint [OF h1 h2 t(1)] t
  have 1: "\<exists>train test. split_data True 5 [1, 0] 1 5 example_df = Inr (train, test)
         \<and> entryID ` set (rows train) \<inter> entryID ` set (rows test) = {}
         \<and> mset (rows train) + mset (rows test) \<subseteq># mset (rows example_df)
         \<and> map entryID (rows train) = [1, 2, 3] \<and> map entryID (rows test) = [9, 10]"
    by (intro exI conjI) (erule conjunct1 conjunct2 | assumption)+
  from split_data_disjoint [OF h1 h2 a(1)] a
  have 2: "\<exists>train test. split_data False 5 [1, 0] 1 5 example_df = Inr (train, test)
         \<and> entryID ` set (rows train) \<inter> entryID ` set (rows test) = {}
         \<and> mset (rows train) + mset (rows test) \<subseteq># mset (rows example_df)
         \<and> map entryID (rows train) = [9, 3, 4, 10, 5, 6, 7, 8]
         \<and> map entryID (rows test) = [1, 2]"
    by (intro exI conjI) (erule conjunct1 conjunct2 | assumption)+
  from h1 h2 1 2 show ?thesis by (intro conjI)
qed

text \<open>
  Claim C6. Under the asset ID-based split every machine of the table has all its
  records in the train set and none in the test set, or all in the test set and none in
  the train set.
\<close>

theorem asset_split_pure:
  assumes perm: "mset perm = mset [0..<length (unique (map machineID (rows data)))]"
    and split: "asset_split perm p q data = Inr (train, test)"
    and m: "m \<in> machineID ` set (rows data)"
  shows "(of_machine m (rows train) = of_machine m (rows data) \<and> of_machine m (rows test) = [])
       \<or> (of_machine m (rows test) = of_machine m (rows data) \<and> of_machine m (rows train) = [])"
proof -
  from split obtain train_assets test_assets where
    ab: "train_test_split_shuffled perm p q (unique (map machineID (rows data)))
           = Inr (train_assets, test_assets)"
    and rs: "rows train = filter (\<lambda>r. machineID r \<in> set train_assets) (rows data)"
      "rows test = filter (\<lambda>r. machineID r \<in> set test_assets) (rows data)"
    by (rule asset_split_rows)
  note sides = shuffled_split_sides [OF perm distinct_unique ab]
  from m sides(2) have "m \<in> set train_assets \<union> set test_assets" by simp
  then consider "m \<in> set train_assets" "m \<notin> set test_assets"
    | "m \<in> set test_assets" "m \<notin> set train_assets"
    using sides(1) by blast
  then show ?thesis
  proof cases
    case 1
    then have "of_machine m (rows train) = of_machine m (rows data)"
      "of_machine m (rows test) = []"
      unfolding rs of_machine_def filter_filter
      by (auto intro: filter_cong simp: filter_empty_conv)
    then show ?thesis by simp
  next
    case 2
    then have "of_machine m (rows test) = of_machine m (rows data)"
      "of_machine m (rows train) = []"
      unfolding rs of_machine_def filter_filter
      by (auto intro: filter_cong simp: filter_empty_conv)
    then show ?thesis by simp
  qed
qed

theorem asset_split_pure_witness:
  "mset [1, 0] = mset [0..<length (unique (map machineID (rows example_df)))]
   \<and> ''M1'' \<in> machineID ` set (rows example_df)
   \<and> (\<exists>train test. asset_split [1, 0] 1 5 example_df = Inr (train, test)
         \<and> (of_machine ''M1'' (rows train) = of_machine ''M1'' (rows example_df)
              \<and> of_machine ''M1'' (rows test) = []
            \<or> of_machine ''M1'' (rows test) = of_machine ''M1'' (rows example_df)
              \<and> of_machine ''M1'' (rows train) = [])
         \<and> map machineID (rows test) = [''M2'', ''M2''])"
proof -
  note h1 = example_perm
  have h3: "''M1'' \<in> machineID ` set (rows example_df)" by code_simp
  have "case asset_split [1, 0] 1 5 example_df of
          Inl e \<Rightarrow> False
        | Inr (train, test) \<Rightarrow> map machineID (rows test) = [''M2'', ''M2'']"
    by code_simp
  then obtain train test where
    a: "asset_split [1, 0] 1 5 example_df = Inr (train, test)"
    "map machineID (rows test) = [''M2'', ''M2'']"
    by (auto split: sum.splits)
  from asset_split_pure [OF h1 a(1) h3] a
  have "\<exists>train test. asset_split [1, 0] 1 5 example_df = Inr (train, test)
         \<and> (of_machine ''M1'' (rows train) = of_machine ''M1'' (rows example_df)
              \<and> of_machine ''M1'' (rows test) = []
            \<or> of_machine ''M1'' (rows test) = of_machine ''M1'' (rows example_df)
              \<and> of_machine ''M1'' (rows train) = [])
         \<and> map machineID (rows test) = [''M2'', ''M2'']"
    by (intro exI conjI)
  with h1 h3 show ?thesis by (intro conjI)
qed

lemma split_data_succeeds:
  assumes "''entryID'' \<in> set (columns data)" and "''max_cycle'' \<notin> set (columns data)"
    and "0 < p" and "p < q"
    and "n_test_of p q (length (rows data)) < length (rows data)"
    and "n_test_of p q (length (unique (map machineID (rows data))))
           < length (unique (map machineID (rows data)))"
  shows "\<exists>train test. split_data time_dependent lookback perm p q data = Inr (train, test)"
proof (cases time_dependent)
  case True
  with time_split_succeeds [OF assms(1,2,3,4,5)] show ?thesis by (simp add: split_data_def)
next
  case False
  from validate_shuffle_split_succeeds [OF assms(3,4,6)] obtain n_train n_test
    where "validate_shuffle_split p q (length (unique (map machineID (rows data))))
             = Inr (n_train, n_test)" by blast
  with False assms(1) show ?thesis
    by (simp add: split_data_def asset_split_def Let_def select_def set_index_def
        train_test_split_shuffled_def)
qed


section \<open>The false-negative filter\<close>



lemma false_negative_filter_frame:
  assumes "false_negative_filter w df = Inr data"
  shows "columns data = columns df" and "index data = index df"
  using assms
  by (auto simp: false_negative_filter_def max_cycles_def select_def drop_max_cycle_def
      join_on_machineID_def remove1_append split: sum.splits if_splits)

lemma false_negative_filter_succeeds:
  assumes "''max_cycle'' \<notin> set (columns df)"
  shows "\<exists>data. false_negative_filter w df = Inr data"
  using assms
  by (simp add: false_negative_filter_def max_cycles_def join_on_machineID_def)











section \<open>The store\<close>

lemma frame_of_bound: "frame_of s x = Inr (a, df) \<Longrightarrow> a < length (heap s)"
  by (auto simp: frame_of_def split: option.splits if_splits obj.splits)

lemma frame_of_new_object:
  "frame_of (new_object x (Frame df) s) x = Inr (length (heap s), df)"
  by (simp add: frame_of_def new_object_def)

lemma frame_of_new_object_other:
  assumes "frame_of s y = Inr (a, df)" and "x \<noteq> y"
  shows "frame_of (new_object x ob s) y = Inr (a, df)"
  using assms
  by (auto simp: frame_of_def new_object_def nth_append split: option.splits if_splits obj.splits)

lemma frame_of_in_place_other:
  assumes "frame_of s y = Inr (a, df)" and "a \<noteq> b"
  shows "frame_of (in_place b ob s) y = Inr (a, df)"
  using assms
  by (auto simp: frame_of_def in_place_def split: option.splits if_splits obj.splits)


lemma eliminate_false_negatives_result:
  assumes "frame_of s ''combined_df'' = Inr (a, combined_df)"
    and "eliminate_false_negatives w s = Inr s1"
  shows "\<exists>data. false_negative_filter w combined_df = Inr data
           \<and> s1 = new_object ''data'' (Frame data) s"
  using assms by (auto simp: eliminate_false_negatives_def split: sum.splits)

lemma train_test_result:
  assumes "frame_of s ''data'' = Inr (a, data)"
    and "train_test time_dependent lookback perm p q s = Inr s2"
  shows "\<exists>train test s'. split_data time_dependent lookback perm p q data = Inr (train, test)
           \<and> s2 = new_object ''test'' (Frame test) (new_object ''train'' (Frame train) s')
           \<and> (s' = s \<or> (\<exists>d. s' = in_place a (Frame d) s))"
  using assms
  by (auto simp: train_test_def split_data_def time_split_def Let_def
      split: sum.splits if_splits)

lemma label_assignment_result:
  assumes "label_assignment w s = Inr s3"
  shows "\<exists>a b c d. s3 = new_object ''Y_test'' b (new_object ''X_test'' a
                        (new_object ''Y_train'' d (new_object ''X_train'' c s)))"
  using assms
  by (auto simp: label_assignment_def Let_def split: sum.splits prod.splits)

lemma correct_imbalance_result:
  assumes "correct_imbalance k synth s = Inr s4"
  shows "\<exists>a b. s4 = new_object ''Y_train_res'' b (new_object ''X_train_res'' a s)"
  using assms
  by (auto simp: correct_imbalance_def split: sum.splits prod.splits)

lemma index_and_sort_changes:
  assumes "index_and_sort data = Inr d"
  shows "d \<noteq> data"
proof
  assume same: "d = data"
  from assms have mem: "''entryID'' \<in> set (columns data)"
    and cols: "columns d = remove1 ''entryID'' (columns data)"
    by (auto simp: index_and_sort_def set_index_def sort_index_def
        split: sum.splits if_splits)
  from cols have "length (columns d) = length (remove1 ''entryID'' (columns data))"
    by simp
  with mem have "length (columns d) = length (columns data) - 1"
    by (simp add: length_remove1)
  moreover from mem have "0 < length (columns data)"
    by (cases "columns data") simp_all
  ultimately have "length (columns d) < length (columns data)"
    by arith
  with same show False
    by simp
qed

lemma train_test_time_store:
  assumes "train_test True lookback perm p q s = Inr s2"
  shows "\<exists>a data d train test.
           frame_of s ''data'' = Inr (a, data) \<and> index_and_sort data = Inr d
           \<and> s2 = new_object ''test'' (Frame test)
                    (new_object ''train'' (Frame train) (in_place a (Frame d) s))"
  using assms
  by (auto simp: train_test_def Let_def split: sum.splits prod.splits)

lemma train_test_asset_store:
  assumes "train_test False lookback perm p q s = Inr s2"
  shows "\<exists>train test.
           s2 = new_object ''test'' (Frame test) (new_object ''train'' (Frame train) s)"
  using assms
  by (auto simp: train_test_def Let_def split: sum.splits prod.splits)

lemma eliminate_false_negatives_store:
  assumes "eliminate_false_negatives w s = Inr s1"
  shows "\<exists>data. s1 = new_object ''data'' (Frame data) s"
  using assms
  by (auto simp: eliminate_false_negatives_def split: sum.splits prod.splits)

lemma loaded_table_unchanged_after_filter:
  assumes loaded: "frame_of s ''combined_df'' = Inr (a, combined_df)"
    and c3: "eliminate_false_negatives w s = Inr s1"
    and c4: "train_test time_dependent lookback perm p q s1 = Inr s2"
    and c5: "label_assignment w s2 = Inr s3"
    and c7: "correct_imbalance k synth s3 = Inr s4"
  shows "frame_of s1 ''combined_df'' = Inr (a, combined_df)
       \<and> frame_of s2 ''combined_df'' = Inr (a, combined_df)
       \<and> frame_of s3 ''combined_df'' = Inr (a, combined_df)
       \<and> frame_of s4 ''combined_df'' = Inr (a, combined_df)
       \<and> take (length (heap s)) (heap s1) = heap s
       \<and> take (length (heap s)) (heap s2) = heap s
       \<and> take (length (heap s)) (heap s3) = heap s
       \<and> take (length (heap s)) (heap s4) = heap s"
proof -
  let ?n = "length (heap s)"
  from eliminate_false_negatives_result [OF loaded c3] obtain data
    where s1: "s1 = new_object ''data'' (Frame data) s" by blast
  have a: "a < ?n" using loaded by (rule frame_of_bound)
  have f1: "frame_of s1 ''combined_df'' = Inr (a, combined_df)"
    unfolding s1 using loaded by (rule frame_of_new_object_other) simp
  have h1: "take ?n (heap s1) = heap s" "?n \<le> length (heap s1)"
    by (simp_all add: s1 new_object_def)
  have d1: "frame_of s1 ''data'' = Inr (?n, data)"
    unfolding s1 by (rule frame_of_new_object)
  from train_test_result [OF d1 c4] obtain train test s' where
    s2: "s2 = new_object ''test'' (Frame test) (new_object ''train'' (Frame train) s')"
    and s': "s' = s1 \<or> (\<exists>d. s' = in_place ?n (Frame d) s1)" by blast
  have f': "frame_of s' ''combined_df'' = Inr (a, combined_df)"
    using s' f1 a by (auto intro: frame_of_in_place_other)
  have h': "take ?n (heap s') = heap s" "?n \<le> length (heap s')"
    using s' h1 by (auto simp: in_place_def)
  have f2: "frame_of s2 ''combined_df'' = Inr (a, combined_df)"
    unfolding s2 by (intro frame_of_new_object_other f') simp_all
  have h2: "take ?n (heap s2) = heap s" "?n \<le> length (heap s2)"
    using h' by (simp_all add: s2 new_object_def)
  from label_assignment_result [OF c5] obtain xa xb xc xd where
    s3: "s3 = new_object ''Y_test'' xb (new_object ''X_test'' xa
                        (new_object ''Y_train'' xd (new_object ''X_train'' xc s2)))" by blast
  have f3: "frame_of s3 ''combined_df'' = Inr (a, combined_df)"
    unfolding s3 by (intro frame_of_new_object_other f2) simp_all
  have h3: "take ?n (heap s3) = heap s" "?n \<le> length (heap s3)"
    using h2 by (simp_all add: s3 new_object_def)
  from correct_imbalance_result [OF c7] obtain ya yb where
    s4: "s4 = new_object ''Y_train_res'' yb (new_object ''X_train_res'' ya s3)" by blast
  have f4: "frame_of s4 ''combined_df'' = Inr (a, combined_df)"
    unfolding s4 by (intro frame_of_new_object_other f3) simp_all
  have h4: "take ?n (heap s4) = heap s"
    using h3 by (simp_all add: s4 new_object_def)
  from f1 f2 f3 f4 h1(1) h2(1) h3(1) h4 show ?thesis by simp
qed




text \<open>
  Claim C9. The false-negative filter, the split by machine, the label assignment and
  the balancing leave every object of the store as it was, and so every table: what
  they make are new objects, bound to the names they assign. The time-dependent split
  changes one object in place, the table that \<^verbatim>\<open>data\<close> names when it starts:
  \<^verbatim>\<open>entryID\<close> becomes its index and its rows are put in the order of \<^verbatim>\<open>entryID\<close>,
  so that it is never the table it was. Every other object it leaves as it was. No cell
  binds a name it does not assign to another object. The loaded table therefore stays
  as it was through every cell where \<^verbatim>\<open>data\<close> names another object, as it does after
  the false-negative filter of \<^verbatim>\<open>ModelTraining.ipynb\<close>; where \<^verbatim>\<open>data\<close> names the
  loaded table itself, the time-dependent split changes it.
\<close>

theorem only_time_split_changes_its_input:
  "(eliminate_false_negatives w s = Inr s' \<longrightarrow>
      take (length (heap s)) (heap s') = heap s
      \<and> (\<exists>data. frame_of s' ''data'' = Inr (length (heap s), data))
      \<and> (x \<notin> set [''data''] \<longrightarrow> map_of (names s') x = map_of (names s) x))
   \<and> (train_test False lookback perm p q s = Inr s' \<longrightarrow>
      take (length (heap s)) (heap s') = heap s
      \<and> (x \<notin> set [''train'', ''test''] \<longrightarrow> map_of (names s') x = map_of (names s) x))
   \<and> (label_assignment w s = Inr s' \<longrightarrow>
      take (length (heap s)) (heap s') = heap s
      \<and> (x \<notin> set [''X_train'', ''Y_train'', ''X_test'', ''Y_test''] \<longrightarrow>
            map_of (names s') x = map_of (names s) x))
   \<and> (correct_imbalance k synth s = Inr s' \<longrightarrow>
      take (length (heap s)) (heap s') = heap s
      \<and> (x \<notin> set [''X_train_res'', ''Y_train_res''] \<longrightarrow>
            map_of (names s') x = map_of (names s) x))
   \<and> (train_test True lookback perm p q s = Inr s' \<longrightarrow>
      (\<exists>a data d. frame_of s ''data'' = Inr (a, data)
         \<and> index_and_sort data = Inr d \<and> d \<noteq> data
         \<and> take (length (heap s)) (heap s') = (heap s)[a := Frame d])
      \<and> (x \<notin> set [''train'', ''test''] \<longrightarrow> map_of (names s') x = map_of (names s) x))"
proof (intro conjI impI)
  assume "eliminate_false_negatives w s = Inr s'"
  then obtain data where s': "s' = new_object ''data'' (Frame data) s"
    using eliminate_false_negatives_store by blast
  show "take (length (heap s)) (heap s') = heap s"
    by (simp add: s' new_object_def)
  show "\<exists>data. frame_of s' ''data'' = Inr (length (heap s), data)"
    unfolding s' using frame_of_new_object by (rule exI)
  show "map_of (names s') x = map_of (names s) x" if "x \<notin> set [''data'']"
    using that by (simp add: s' new_object_def)
next
  assume "train_test False lookback perm p q s = Inr s'"
  then obtain train test where
    s': "s' = new_object ''test'' (Frame test) (new_object ''train'' (Frame train) s)"
    using train_test_asset_store by blast
  show "take (length (heap s)) (heap s') = heap s"
    by (simp add: s' new_object_def)
  show "map_of (names s') x = map_of (names s) x" if "x \<notin> set [''train'', ''test'']"
    using that by (simp add: s' new_object_def)
next
  assume "label_assignment w s = Inr s'"
  then obtain xa xb xc xd where
    s': "s' = new_object ''Y_test'' xb (new_object ''X_test'' xa
               (new_object ''Y_train'' xd (new_object ''X_train'' xc s)))"
    using label_assignment_result by blast
  show "take (length (heap s)) (heap s') = heap s"
    by (simp add: s' new_object_def)
  show "map_of (names s') x = map_of (names s) x"
    if "x \<notin> set [''X_train'', ''Y_train'', ''X_test'', ''Y_test'']"
    using that by (simp add: s' new_object_def)
next
  assume "correct_imbalance k synth s = Inr s'"
  then obtain ya yb where
    s': "s' = new_object ''Y_train_res'' yb (new_object ''X_train_res'' ya s)"
    using correct_imbalance_result by blast
  show "take (length (heap s)) (heap s') = heap s"
    by (simp add: s' new_object_def)
  show "map_of (names s') x = map_of (names s) x"
    if "x \<notin> set [''X_train_res'', ''Y_train_res'']"
    using that by (simp add: s' new_object_def)
next
  assume "train_test True lookback perm p q s = Inr s'"
  then obtain a data d train test where
    data: "frame_of s ''data'' = Inr (a, data)" and d: "index_and_sort data = Inr d"
    and s': "s' = new_object ''test'' (Frame test)
                    (new_object ''train'' (Frame train) (in_place a (Frame d) s))"
    using train_test_time_store by blast
  from d have ne: "d \<noteq> data" by (rule index_and_sort_changes)
  have "take (length (heap s)) (heap s') = (heap s)[a := Frame d]"
    by (simp add: s' new_object_def in_place_def)
  with data d ne
  show "\<exists>a data d. frame_of s ''data'' = Inr (a, data)
         \<and> index_and_sort data = Inr d \<and> d \<noteq> data
         \<and> take (length (heap s)) (heap s') = (heap s)[a := Frame d]"
    by (intro exI conjI)
  show "map_of (names s') x = map_of (names s) x" if "x \<notin> set [''train'', ''test'']"
    using that by (simp add: s' new_object_def in_place_def)
qed

theorem only_time_split_changes_its_input_witness:
  "\<exists>s1 s2 s3 s4 t2.
      eliminate_false_negatives 7 example_fleet_store = Inr s1
      \<and> train_test False 5 [1, 0] 1 5 s1 = Inr s2
      \<and> label_assignment 7 s2 = Inr s3
      \<and> correct_imbalance 6 example_synth s3 = Inr s4
      \<and> train_test True 5 [1, 0] 1 5 s1 = Inr t2
      \<and> ''combined_df'' \<notin> set [''data'']
      \<and> ''combined_df'' \<notin> set [''train'', ''test'']
      \<and> ''combined_df'' \<notin> set [''X_train'', ''Y_train'', ''X_test'', ''Y_test'']
      \<and> ''combined_df'' \<notin> set [''X_train_res'', ''Y_train_res'']
      \<and> take (length (heap example_fleet_store)) (heap s1) = heap example_fleet_store
      \<and> take (length (heap s1)) (heap s2) = heap s1
      \<and> take (length (heap s2)) (heap s3) = heap s2
      \<and> take (length (heap s3)) (heap s4) = heap s3
      \<and> map_of (names s1) ''combined_df'' = map_of (names example_fleet_store) ''combined_df''
      \<and> map_of (names s2) ''combined_df'' = map_of (names s1) ''combined_df''
      \<and> map_of (names s3) ''combined_df'' = map_of (names s2) ''combined_df''
      \<and> map_of (names s4) ''combined_df'' = map_of (names s3) ''combined_df''
      \<and> map_of (names t2) ''combined_df'' = map_of (names s1) ''combined_df''
      \<and> (\<exists>data. frame_of s1 ''data'' = Inr (length (heap example_fleet_store), data))
      \<and> (\<exists>a data d. frame_of s1 ''data'' = Inr (a, data)
            \<and> index_and_sort data = Inr d \<and> d \<noteq> data
            \<and> take (length (heap s1)) (heap t2) = (heap s1)[a := Frame d])
      \<and> frame_of example_fleet_store ''combined_df'' = Inr (0, example_fleet)
      \<and> frame_of s4 ''combined_df'' = Inr (0, example_fleet)
      \<and> frame_of t2 ''combined_df'' = Inr (0, example_fleet)
      \<and> map_sum id (index \<circ> snd) (frame_of s1 ''data'') = Inr None
      \<and> map_sum id (index \<circ> snd) (frame_of t2 ''data'') = Inr (Some ''entryID'')
      \<and> map_sum id (length \<circ> rows \<circ> snd) (frame_of s1 ''data'') = Inr 22
      \<and> map_sum id (length \<circ> rows \<circ> snd) (frame_of s3 ''X_train'') = Inr 20
      \<and> map_sum id ((\<lambda>Y. (count_list Y [], count_list Y ''F1'')) \<circ> snd)
           (series_of s3 ''Y_train'') = Inr (14, 6)
      \<and> map_sum id (length \<circ> rows \<circ> snd) (frame_of s4 ''X_train_res'') = Inr 28
      \<and> map_sum id ((\<lambda>Y. (count_list Y [], count_list Y ''F1'')) \<circ> snd)
           (series_of s4 ''Y_train_res'') = Inr (14, 14)"
proof -
  let ?s0 = "example_fleet_store"
  let ?s1 = "projr (eliminate_false_negatives 7 ?s0)"
  let ?s2 = "projr (train_test False 5 [1, 0] 1 5 ?s1)"
  let ?s3 = "projr (label_assignment 7 ?s2)"
  let ?s4 = "projr (correct_imbalance 6 example_synth ?s3)"
  let ?t2 = "projr (train_test True 5 [1, 0] 1 5 ?s1)"
  have r1: "eliminate_false_negatives 7 ?s0 = Inr ?s1" by code_simp
  have r2: "train_test False 5 [1, 0] 1 5 ?s1 = Inr ?s2" by code_simp
  have r3: "label_assignment 7 ?s2 = Inr ?s3" by code_simp
  have r4: "correct_imbalance 6 example_synth ?s3 = Inr ?s4" by code_simp
  have r5: "train_test True 5 [1, 0] 1 5 ?s1 = Inr ?t2" by code_simp
  have n1: "''combined_df'' \<notin> set [''data'']" by simp
  have n2: "''combined_df'' \<notin> set [''train'', ''test'']" by simp
  have n3: "''combined_df'' \<notin> set [''X_train'', ''Y_train'', ''X_test'', ''Y_test'']" by simp
  have n4: "''combined_df'' \<notin> set [''X_train_res'', ''Y_train_res'']" by simp
  have e0: "frame_of ?s0 ''combined_df'' = Inr (0, example_fleet)" by code_simp
  have e1: "frame_of ?s4 ''combined_df'' = Inr (0, example_fleet)" by code_simp
  have e2: "frame_of ?t2 ''combined_df'' = Inr (0, example_fleet)" by code_simp
  have e3: "map_sum id (index \<circ> snd) (frame_of ?s1 ''data'') = Inr None" by code_simp
  have e4: "map_sum id (index \<circ> snd) (frame_of ?t2 ''data'') = Inr (Some ''entryID'')"
    by code_simp
  have e5: "map_sum id (length \<circ> rows \<circ> snd) (frame_of ?s1 ''data'') = Inr 22" by code_simp
  have e6: "map_sum id (length \<circ> rows \<circ> snd) (frame_of ?s3 ''X_train'') = Inr 20"
    by code_simp
  have e7: "map_sum id ((\<lambda>Y. (count_list Y [], count_list Y ''F1'')) \<circ> snd)
           (series_of ?s3 ''Y_train'') = Inr (14, 6)" by code_simp
  have e8: "map_sum id (length \<circ> rows \<circ> snd) (frame_of ?s4 ''X_train_res'') = Inr 28"
    by code_simp
  have e9: "map_sum id ((\<lambda>Y. (count_list Y [], count_list Y ''F1'')) \<circ> snd)
           (series_of ?s4 ''Y_train_res'') = Inr (14, 14)" by code_simp
  from only_time_split_changes_its_input
         [where s = ?s0 and s' = ?s1 and w = 7 and x = "''combined_df''",
            THEN conjunct1]
    r1 n1
  have c1: "take (length (heap ?s0)) (heap ?s1) = heap ?s0"
    "\<exists>data. frame_of ?s1 ''data'' = Inr (length (heap ?s0), data)"
    "map_of (names ?s1) ''combined_df'' = map_of (names ?s0) ''combined_df''"
    by blast+
  from only_time_split_changes_its_input
         [where s = ?s1 and s' = ?s2 and lookback = 5 and perm = "[1, 0]" and p = 1 and q = 5
            and x = "''combined_df''",
            THEN conjunct2, THEN conjunct1]
    r2 n2
  have c2: "take (length (heap ?s1)) (heap ?s2) = heap ?s1"
    "map_of (names ?s2) ''combined_df'' = map_of (names ?s1) ''combined_df''"
    by blast+
  from only_time_split_changes_its_input
         [where s = ?s2 and s' = ?s3 and w = 7 and x = "''combined_df''",
            THEN conjunct2, THEN conjunct2, THEN conjunct1]
    r3 n3
  have c3: "take (length (heap ?s2)) (heap ?s3) = heap ?s2"
    "map_of (names ?s3) ''combined_df'' = map_of (names ?s2) ''combined_df''"
    by blast+
  from only_time_split_changes_its_input
         [where s = ?s3 and s' = ?s4 and k = 6 and synth = example_synth
            and x = "''combined_df''",
            THEN conjunct2, THEN conjunct2, THEN conjunct2, THEN conjunct1]
    r4 n4
  have c4: "take (length (heap ?s3)) (heap ?s4) = heap ?s3"
    "map_of (names ?s4) ''combined_df'' = map_of (names ?s3) ''combined_df''"
    by blast+
  from only_time_split_changes_its_input
         [where s = ?s1 and s' = ?t2 and lookback = 5 and perm = "[1, 0]" and p = 1 and q = 5
            and x = "''combined_df''",
            THEN conjunct2, THEN conjunct2, THEN conjunct2, THEN conjunct2]
    r5 n2
  have c5: "\<exists>a data d. frame_of ?s1 ''data'' = Inr (a, data)
         \<and> index_and_sort data = Inr d \<and> d \<noteq> data
         \<and> take (length (heap ?s1)) (heap ?t2) = (heap ?s1)[a := Frame d]"
    "map_of (names ?t2) ''combined_df'' = map_of (names ?s1) ''combined_df''"
    by blast+
  from c1(2) obtain data0 where
    o1: "frame_of ?s1 ''data'' = Inr (length (heap ?s0), data0)" by (elim exE)
  from c5(1) obtain a data d where
    o2: "frame_of ?s1 ''data'' = Inr (a, data)" and o3: "index_and_sort data = Inr d"
    and o4: "d \<noteq> data"
    and o5: "take (length (heap ?s1)) (heap ?t2) = (heap ?s1)[a := Frame d]"
    by (elim exE conjE)
  from r1 r2 r3 r4 r5 n1 n2 n3 n4 c1(1) c2(1) c3(1) c4(1) c1(3) c2(2) c3(2) c4(2) c5(2)
    o1 o2 o3 o4 o5 e0 e1 e2 e3 e4 e5 e6 e7 e8 e9
  show ?thesis
    by (intro exI conjI)
qed

text \<open>
  Where \<^verbatim>\<open>data\<close> names the loaded table, as after the first cell of the notebook in
  \<^verbatim>\<open>src/src/build.proj\<close>, the time-dependent split changes the loaded table in
  place: the object is a frame indexed by \<^verbatim>\<open>entryID\<close>, with its rows in another
  order.
\<close>

theorem time_split_changes_loaded_table:
  "heap example_loaded_as_data = [Frame example_df]
   \<and> frame_of example_loaded_as_data ''data'' = Inr (0, example_df)
   \<and> map_sum id (take 1 \<circ> heap) (train_test True 5 [1, 0] 1 5 example_loaded_as_data) =
       Inr [Frame \<lparr>index = Some ''entryID'',
                   columns = [''machineID'', ''cycle'', ''sequenceID'', ''rul'', ''failure'',
                              ''s1''],
                   rows = sort_key entryID (rows example_df)\<rparr>]
   \<and> map_sum id (take 1 \<circ> heap) (train_test True 5 [1, 0] 1 5 example_loaded_as_data) \<noteq>
       Inr [Frame example_df]
   \<and> map entryID (rows example_df) = [9, 3, 1, 4, 10, 2, 5, 6, 7, 8]
   \<and> map entryID (sort_key entryID (rows example_df)) = [1, 2, 3, 4, 5, 6, 7, 8, 9, 10]"
  by code_simp

section \<open>Feature vectors\<close>

lemma xy_result:
  assumes "xy data w = Inr (X, Y)"
  shows "columns X = filter (\<lambda>c. c \<notin> set columns_to_drop) (columns data)"
    and "rows X = rows data" and "index X = None" and "Y = map (xy_f w) (rows data)"
  using assms
  by (auto simp: xy_def Let_def drop_columns_def reset_index_drop_def
      split: sum.splits list.splits)

lemma xy_succeeds:
  assumes "set columns_to_drop \<subseteq> set (columns data)"
  shows "\<exists>X Y. xy data w = Inr (X, Y)"
proof -
  have "filter (\<lambda>c. c \<notin> set (columns data)) columns_to_drop = []"
    using assms by (auto simp: filter_empty_conv)
  then show ?thesis
    by (simp add: xy_def Let_def drop_columns_def reset_index_drop_def)
qed

lemma labels_to_records: "v \<in> set (to_records X) \<Longrightarrow> fst ` set v = set (columns X)"
  by (force simp: to_records_def)

text \<open>
  Claim C7. No feature vector that \<^verbatim>\<open>xy\<close> returns has a field \<^verbatim>\<open>cycle\<close>,
  \<^verbatim>\<open>failure\<close>, \<^verbatim>\<open>rul\<close>, \<^verbatim>\<open>sequenceID\<close> or \<^verbatim>\<open>machineID\<close>.
\<close>

theorem xy_drops_columns:
  assumes "xy data w = Inr (X, Y)" and "v \<in> set (to_records X)"
  shows "fst ` set v \<inter> set columns_to_drop = {}"
  using assms by (auto simp: labels_to_records xy_result(1))

theorem xy_drops_columns_witness:
  "\<exists>X Y v. xy example_df 7 = Inr (X, Y) \<and> v \<in> set (to_records X)
     \<and> fst ` set v \<inter> set columns_to_drop = {}
     \<and> v = [(''entryID'', Some (Num 9)), (''s1'', Some (Num 1000))]"
proof -
  have "case xy example_df 7 of
          Inl e \<Rightarrow> False
        | Inr (X, Y) \<Rightarrow> hd (to_records X) = [(''entryID'', Some (Num 9)), (''s1'', Some (Num 1000))]
             \<and> to_records X \<noteq> []"
    by code_simp
  then obtain X Y where
    x: "xy example_df 7 = Inr (X, Y)"
    "hd (to_records X) = [(''entryID'', Some (Num 9)), (''s1'', Some (Num 1000))]"
    "to_records X \<noteq> []"
    by (auto split: sum.splits)
  from x(3) have v: "hd (to_records X) \<in> set (to_records X)" by simp
  from xy_drops_columns [OF x(1) v] x(1) v x(2) show ?thesis
    by (intro exI conjI)
qed

lemma time_split_columns:
  assumes dist: "distinct (columns data)"
    and split: "time_split lookback p q data = Inr (train, test)"
  shows "columns train = remove1 ''entryID'' (columns data)"
    and "columns test = remove1 ''entryID'' (columns data)"
    and "index train = Some ''entryID''" and "index test = Some ''entryID''"
proof -
  from split obtain d a b t where
    d: "set_index ''entryID'' data = Inr d"
    and test: "test = (sort_index d)\<lparr>rows := b\<rparr>"
    and t: "join_on_machineID (reset_index ((sort_index d)\<lparr>rows := a\<rparr>))
              (min_cycles lookback test) = Inr t"
    and tr: "set_index ''entryID'' (drop_max_cycle
               (select (\<lambda>(r, max_cycle). isna max_cycle \<or> lt_cell (cycle r) max_cycle) t))
             = Inr train"
    by (auto simp: time_split_def index_and_sort_def time_split_sorted_def Let_def
        split: sum.splits prod.splits)
  have cd: "columns d = remove1 ''entryID'' (columns data)" "index d = Some ''entryID''"
    using d by (auto simp: set_index_def split: if_splits)
  show "columns test = remove1 ''entryID'' (columns data)" "index test = Some ''entryID''"
    by (simp_all add: test sort_index_def cd)
  have nomc: "''max_cycle'' \<notin> set (remove1 ''entryID'' (columns data))"
    and ct: "columns t = (''entryID'' # remove1 ''entryID'' (columns data)) @ [''max_cycle'']"
    using t by (auto simp: join_on_machineID_def reset_index_def sort_index_def cd split: if_splits)
  have "columns (drop_max_cycle
                    (select (\<lambda>(r, max_cycle). isna max_cycle \<or> lt_cell (cycle r) max_cycle) t))
        = ''entryID'' # remove1 ''entryID'' (columns data)"
    using nomc by (simp add: drop_max_cycle_def select_def ct remove1_append)
  with tr show "columns train = remove1 ''entryID'' (columns data)"
    by (auto simp: set_index_def)
  from tr show "index train = Some ''entryID''" by (rule index_set_index)
qed

lemma asset_split_columns:
  assumes split: "asset_split perm p q data = Inr (train, test)"
  shows "columns train = remove1 ''entryID'' (columns data)"
    and "columns test = remove1 ''entryID'' (columns data)"
    and "index train = Some ''entryID''" and "index test = Some ''entryID''"
  using assms
  by (auto simp: asset_split_def Let_def select_def set_index_def
      split: prod.splits sum.splits if_splits)

lemma split_data_columns:
  assumes "distinct (columns data)"
    and "split_data time_dependent lookback perm p q data = Inr (train, test)"
  shows "columns train = remove1 ''entryID'' (columns data)"
    and "columns test = remove1 ''entryID'' (columns data)"
    and "index train = Some ''entryID''" and "index test = Some ''entryID''"
  using assms time_split_columns [of data lookback p q train test]
    asset_split_columns [of perm p q data train test]
  by (auto simp: split_data_def split: if_splits)

text \<open>
  Claim C10. After either split, train and test are indexed by \<^verbatim>\<open>entryID\<close>;
  \<^verbatim>\<open>xy\<close> throws that index away, and no feature vector of either side has a field
  \<^verbatim>\<open>entryID\<close>. The column labels of the table are distinct, as those of a frame read
  from a CSV file are.
\<close>

theorem entryID_not_a_feature:
  assumes "distinct (columns data)"
    and "split_data time_dependent lookback perm p q data = Inr (train, test)"
    and "xy train w = Inr (X_train, Y_train)"
    and "xy test w = Inr (X_test, Y_test)"
  shows "index train = Some ''entryID'' \<and> index test = Some ''entryID''
       \<and> index X_train = None \<and> index X_test = None
       \<and> (\<forall>v \<in> set (to_records X_train) \<union> set (to_records X_test). ''entryID'' \<notin> fst ` set v)"
proof -
  note sc = split_data_columns [OF assms(1,2)]
  have "''entryID'' \<notin> set (remove1 ''entryID'' (columns data))"
    using assms(1) by simp
  then have "''entryID'' \<notin> set (columns X_train)" "''entryID'' \<notin> set (columns X_test)"
    by (simp_all add: xy_result(1) [OF assms(3)] xy_result(1) [OF assms(4)] sc)
  then have "\<forall>v \<in> set (to_records X_train) \<union> set (to_records X_test). ''entryID'' \<notin> fst ` set v"
    using labels_to_records by blast
  with sc xy_result(3) [OF assms(3)] xy_result(3) [OF assms(4)] show ?thesis by simp
qed

theorem entryID_not_a_feature_witness:
  "distinct (columns example_df)
   \<and> (\<exists>train test X_train Y_train X_test Y_test.
         split_data True 5 [1, 0] 1 5 example_df = Inr (train, test)
         \<and> xy train 7 = Inr (X_train, Y_train) \<and> xy test 7 = Inr (X_test, Y_test)
         \<and> index train = Some ''entryID'' \<and> index test = Some ''entryID''
         \<and> index X_train = None \<and> index X_test = None
         \<and> list_all (\<lambda>v. ''entryID'' \<notin> fst ` set v) (to_records X_train @ to_records X_test)
         \<and> to_records X_test = [[(''s1'', Some (Num 1000))], [(''s1'', Some (Num 1000))]])"
proof -
  let ?split = "projr (split_data True 5 [1, 0] 1 5 example_df)"
  let ?train = "fst ?split" and ?test = "snd ?split"
  let ?X_train = "fst (projr (xy ?train 7))" and ?Y_train = "snd (projr (xy ?train 7))"
  let ?X_test = "fst (projr (xy ?test 7))" and ?Y_test = "snd (projr (xy ?test 7))"
  have h1: "distinct (columns example_df)" by code_simp
  have r1: "split_data True 5 [1, 0] 1 5 example_df = Inr (?train, ?test)" by code_simp
  have r2: "xy ?train 7 = Inr (?X_train, ?Y_train)" by code_simp
  have r3: "xy ?test 7 = Inr (?X_test, ?Y_test)" by code_simp
  have r4: "to_records ?X_test = [[(''s1'', Some (Num 1000))], [(''s1'', Some (Num 1000))]]"
    by code_simp
  from entryID_not_a_feature [OF h1 r1 r2 r3]
  have c: "index ?train = Some ''entryID''" "index ?test = Some ''entryID''"
    "index ?X_train = None" "index ?X_test = None"
    "list_all (\<lambda>v. ''entryID'' \<notin> fst ` set v) (to_records ?X_train @ to_records ?X_test)"
    by (simp_all add: list_all_iff Ball_def)
  from r1 r2 r3 c r4
  have "\<exists>train test X_train Y_train X_test Y_test.
         split_data True 5 [1, 0] 1 5 example_df = Inr (train, test)
         \<and> xy train 7 = Inr (X_train, Y_train) \<and> xy test 7 = Inr (X_test, Y_test)
         \<and> index train = Some ''entryID'' \<and> index test = Some ''entryID''
         \<and> index X_train = None \<and> index X_test = None
         \<and> list_all (\<lambda>v. ''entryID'' \<notin> fst ` set v) (to_records X_train @ to_records X_test)
         \<and> to_records X_test = [[(''s1'', Some (Num 1000))], [(''s1'', Some (Num 1000))]]"
    by (intro exI conjI)
  with h1 show ?thesis by (intro conjI)
qed

section \<open>Balancing\<close>

lemma fold_max_Max: "fold max xs (a::nat) = Max (insert a (set xs))"
  by (metis Max.set_eq_fold list.simps(15))

lemma majority_count_Max:
  assumes "Y \<noteq> []"
  shows "majority_count Y = Max (count_list Y ` set Y)"
proof -
  have ne: "count_list Y ` set Y \<noteq> {}" using assms by simp
  have "majority_count Y = Max (insert 0 (count_list Y ` set Y))"
    by (simp add: majority_count_def fold_max_Max)
  also have "\<dots> = max 0 (Max (count_list Y ` set Y))"
    using ne by (intro Max_insert) simp_all
  finally show ?thesis by simp
qed

lemma count_le_majority: "count_list Y c \<le> majority_count Y"
proof (cases "c \<in> set Y")
  case True
  then have "count_list Y c \<in> insert 0 (count_list Y ` set Y)" by simp
  then show ?thesis
    unfolding majority_count_def fold_max_Max
    by (metis List.finite_set Max_ge finite_imageI finite_insert list.set_map)
next
  case False
  then show ?thesis by (simp add: count_list_0_iff [THEN iffD2])
qed

lemma count_list_replicate_eq: "count_list (replicate n x) c = (if x = c then n else 0)"
  by (induction n) auto

lemma count_list_top_up:
  assumes "distinct cs"
  shows "count_list (concat (map (\<lambda>c. replicate (f c) c) cs)) x = (if x \<in> set cs then f x else 0)"
  using assms
  by (induction cs) (auto simp: count_list_replicate_eq)

lemma fit_sample_labels:
  assumes "fit_sample k synth X Y = Inr (X', Y')"
  shows "Y' = Y @ concat (map (\<lambda>c. replicate (majority_count Y - count_list Y c) c)
                       (filter (\<lambda>c. count_list Y c < majority_count Y) (unique Y)))"
  using assms by (auto simp: fit_sample_def Let_def split: list.splits)

lemma fit_sample_succeeds:
  assumes "\<forall>c \<in> set Y. k \<le> count_list Y c"
  shows "\<exists>X' Y'. fit_sample k synth X Y = Inr (X', Y')"
proof -
  have "filter (\<lambda>c. count_list Y c < k) (unique Y) = []"
    using assms by (auto simp: filter_empty_conv)
  then show ?thesis by (simp add: fit_sample_def Let_def)
qed

lemma fit_sample_counts:
  assumes fit: "fit_sample k synth X Y = Inr (X', Y')" and c: "c \<in> set Y'"
  shows "count_list Y' c = majority_count Y" and "c \<in> set Y"
proof -
  let ?minority = "filter (\<lambda>c. count_list Y c < majority_count Y) (unique Y)"
  note Y' = fit_sample_labels [OF fit]
  show cY: "c \<in> set Y" using c unfolding Y' by auto
  have "count_list Y' c = count_list Y c + (if c \<in> set ?minority then majority_count Y - count_list Y c else 0)"
    unfolding Y' count_list_append
    by (subst count_list_top_up) simp_all
  also have "\<dots> = majority_count Y"
    using cY count_le_majority [of Y c] by auto
  finally show "count_list Y' c = majority_count Y" .
qed

text \<open>
  Claim C5. When the training labels have at least two classes and every class has
  the samples the balancer requires, the balancer returns a training set with the same
  classes, and every class has as many labels there as the majority class had before.
\<close>

theorem fit_sample_balanced:
  assumes "2 \<le> card (set Y)" and "\<forall>c \<in> set Y. k \<le> count_list Y c"
  shows "\<exists>X' Y'. fit_sample k synth X Y = Inr (X', Y')
           \<and> set Y' = set Y
           \<and> (\<forall>c \<in> set Y'. count_list Y' c = Max (count_list Y ` set Y))"
proof -
  from fit_sample_succeeds [OF assms(2)] obtain X' Y'
    where fit: "fit_sample k synth X Y = Inr (X', Y')" by blast
  have "Y \<noteq> []" using assms(1) by auto
  then have mc: "majority_count Y = Max (count_list Y ` set Y)" by (rule majority_count_Max)
  have "set Y \<subseteq> set Y'" unfolding fit_sample_labels [OF fit] by simp
  with fit_sample_counts [OF fit] have "set Y' = set Y"
    and "\<forall>c \<in> set Y'. count_list Y' c = Max (count_list Y ` set Y)"
    by (auto simp: mc)
  with fit show ?thesis by blast
qed

theorem fit_sample_balanced_witness:
  "2 \<le> card (set example_labels)
   \<and> list_all (\<lambda>c. 1 \<le> count_list example_labels c) example_labels
   \<and> (\<exists>X' Y'. fit_sample 1 example_synth example_df example_labels = Inr (X', Y')
         \<and> set Y' = set example_labels
         \<and> list_all (\<lambda>c. count_list Y' c = Max (count_list example_labels ` set example_labels)) Y'
         \<and> Y' = [[], [], [], ''F1'', ''F2'', ''F2'', ''F1'', ''F1'', ''F2''])
   \<and> Max (count_list example_labels ` set example_labels) = 3"
proof -
  have h1: "2 \<le> card (set example_labels)" by code_simp
  have h2': "list_all (\<lambda>c. 1 \<le> count_list example_labels c) example_labels" by code_simp
  then have h2: "\<forall>c \<in> set example_labels. 1 \<le> count_list example_labels c"
    by (simp add: list_all_iff)
  have m: "Max (count_list example_labels ` set example_labels) = 3" by code_simp
  have "case fit_sample 1 example_synth example_df example_labels of
          Inl e \<Rightarrow> False
        | Inr (X', Y') \<Rightarrow> Y' = [[], [], [], ''F1'', ''F2'', ''F2'', ''F1'', ''F1'', ''F2'']"
    by code_simp
  then obtain X Y where
    r: "fit_sample 1 example_synth example_df example_labels = Inr (X, Y)"
    "Y = [[], [], [], ''F1'', ''F2'', ''F2'', ''F1'', ''F1'', ''F2'']"
    by (auto split: sum.splits)
  from fit_sample_balanced [OF h1 h2, of example_synth example_df] r(1)
  have c: "set Y = set example_labels"
    "list_all (\<lambda>c. count_list Y c = Max (count_list example_labels ` set example_labels)) Y"
    by (auto simp: list_all_iff)
  from r(1) c r(2)
  have "\<exists>X' Y'. fit_sample 1 example_synth example_df example_labels = Inr (X', Y')
         \<and> set Y' = set example_labels
         \<and> list_all (\<lambda>c. count_list Y' c = Max (count_list example_labels ` set example_labels)) Y'
         \<and> Y' = [[], [], [], ''F1'', ''F2'', ''F2'', ''F1'', ''F1'', ''F2'']"
    by (intro exI conjI)
  with h1 h2' m show ?thesis by (intro conjI)
qed

section \<open>Loading\<close>

lemma unique_append_known:
  assumes "distinct cs" and "set ys \<subseteq> set cs"
  shows "unique (cs @ ys) = cs"
proof -
  have "remdups (rev ys @ rev cs) = remdups (rev cs)"
    using assms(2) by (intro remdups_append) simp
  also have "remdups (rev cs) = rev cs"
    using assms(1) by (simp add: distinct_remdups_id)
  finally show ?thesis by (simp add: unique_def)
qed

lemma unique_same_columns:
  assumes "dfs \<noteq> []" and "\<forall>t \<in> set dfs. columns t = cs" and "distinct cs"
  shows "unique (concat (map columns dfs)) = cs"
proof -
  from assms(1) obtain t ts where dfs: "dfs = t # ts" by (cases dfs) auto
  with assms(2) have "columns t = cs" and "set (concat (map columns ts)) \<subseteq> set cs"
    by auto
  with assms(3) show ?thesis
    by (simp add: dfs unique_append_known)
qed

lemma reindex_own_columns:
  assumes "distinct (map fst r)"
  shows "reindex (map fst r) r = r"
proof -
  have "(case map_of r (fst x) of None \<Rightarrow> NaN | Some v \<Rightarrow> v) = snd x" if "x \<in> set r" for x
  proof -
    from that have "(fst x, snd x) \<in> set r" by simp
    with assms have "map_of r (fst x) = Some (snd x)" by (rule map_of_is_SomeI)
    then show ?thesis by simp
  qed
  then have "map (\<lambda>x. (fst x, case map_of r (fst x) of None \<Rightarrow> NaN | Some v \<Rightarrow> v)) r = r"
    by (intro map_idI) simp
  then show ?thesis
    by (simp add: reindex_def comp_def)
qed

lemma pd_concat_same_columns:
  assumes ne: "dfs \<noteq> []"
    and same: "\<forall>t \<in> set dfs. well_formed t \<and> columns t = cs"
  shows "pd_concat dfs = Inr \<lparr>index = None, columns = cs, rows = concat (map rows dfs)\<rparr>"
proof -
  from ne have "hd dfs \<in> set dfs" by simp
  with same have dcs: "distinct cs"
    by (auto simp: well_formed_def)
  have u: "unique (concat (map columns dfs)) = cs"
    using ne same dcs by (intro unique_same_columns) auto
  have "map (reindex cs) (rows t) = rows t" if "t \<in> set dfs" for t
  proof (rule map_idI)
    fix r assume "r \<in> set (rows t)"
    with same that have "map fst r = cs"
      by (auto simp: well_formed_def list_all_iff)
    with dcs reindex_own_columns [of r] show "reindex cs r = r" by simp
  qed
  then have "map (\<lambda>df. map (reindex cs) (rows df)) dfs = map rows dfs"
    by (intro map_cong) simp_all
  then have "concat (map (\<lambda>df. map (reindex cs) (rows df)) dfs) = concat (map rows dfs)"
    by (rule arg_cong)
  with ne u show ?thesis by (simp add: pd_concat_def Let_def)
qed

text \<open>
  Claim C8, as the notebook has it. For one or more source tables, each with distinct
  column labels as \<^verbatim>\<open>read_csv\<close> makes them, \<^verbatim>\<open>pd.concat\<close> returns a table and
  raises nothing, whatever the columns of the tables are: its
  columns are all the columns of the sources, its rows are the rows of the sources in
  their order, one table after the other, each filled up with NaN in the columns its
  table lacks. When all the tables have the same columns the result has these columns
  and its rows are exactly the rows of the sources in their order, none removed.
\<close>

theorem pd_concat_aligns:
  assumes "dfs \<noteq> []" and "\<forall>t \<in> set dfs. distinct (columns t)"
  shows "\<exists>df. pd_concat dfs = Inr df
           \<and> set (columns df) = (\<Union>t \<in> set dfs. set (columns t))
           \<and> rows df = map (reindex (columns df)) (concat (map rows dfs))
           \<and> ((\<forall>t \<in> set dfs. well_formed t \<and> columns t = cs) \<longrightarrow>
                 columns df = cs \<and> rows df = concat (map rows dfs))"
proof -
  define df where "df = \<lparr>index = None, columns = unique (concat (map columns dfs)),
      rows = concat (map (\<lambda>df. map (reindex (unique (concat (map columns dfs)))) (rows df)) dfs)\<rparr>"
  have 1: "pd_concat dfs = Inr df"
    using assms(1) by (simp add: pd_concat_def Let_def df_def)
  have 2: "set (columns df) = (\<Union>t \<in> set dfs. set (columns t))"
    by (simp add: df_def)
  have 3: "rows df = map (reindex (columns df)) (concat (map rows dfs))"
    by (simp add: df_def map_concat comp_def)
  have 4: "columns df = cs \<and> rows df = concat (map rows dfs)"
    if "\<forall>t \<in> set dfs. well_formed t \<and> columns t = cs"
    using pd_concat_same_columns [OF assms(1) that] 1 by auto
  from 1 2 3 4 show ?thesis by blast
qed

theorem pd_concat_aligns_witness:
  "[source_a, source_a] \<noteq> []
   \<and> list_all (\<lambda>t. distinct (columns t)) [source_a, source_a]
   \<and> list_all (\<lambda>t. well_formed t \<and> columns t = columns source_a) [source_a, source_a]
   \<and> pd_concat [source_a, source_a] =
       Inr \<lparr>index = None, columns = columns source_a, rows = rows source_a @ rows source_a\<rparr>"
proof -
  have h1: "[source_a, source_a] \<noteq> []" by simp
  have h2': "list_all (\<lambda>t. well_formed t \<and> columns t = columns source_a) [source_a, source_a]"
    by code_simp
  then have h2: "\<forall>t \<in> set [source_a, source_a]. well_formed t \<and> columns t = columns source_a"
    by (simp only: list_all_iff)
  have h3': "list_all (\<lambda>t. distinct (columns t)) [source_a, source_a]"
    by code_simp
  then have h3: "\<forall>t \<in> set [source_a, source_a]. distinct (columns t)"
    by (simp only: list_all_iff)
  from pd_concat_aligns [OF h1 h3, of "columns source_a"] h2
  obtain df where "pd_concat [source_a, source_a] = Inr df"
    "columns df = columns source_a" "rows df = concat (map rows [source_a, source_a])"
    by blast
  then have "pd_concat [source_a, source_a] =
       Inr \<lparr>index = None, columns = columns source_a, rows = rows source_a @ rows source_a\<rparr>"
    by (auto simp: pd_concat_def Let_def)
  with h1 h3' h2' show ?thesis by (intro conjI)
qed

text \<open>
  Claim C8, as the specification has it, asks for a failure when two source tables
  differ in their columns. Two tables that differ in the column \<^verbatim>\<open>rul\<close> are
  concatenated without any error.
\<close>

theorem pd_concat_differing_columns:
  "set (columns source_a) \<noteq> set (columns source_b)
   \<and> pd_concat [source_a, source_b] =
       Inr \<lparr>index = None, columns = [''entryID'', ''machineID'', ''cycle'', ''rul''],
            rows = [[(''entryID'', Num 1), (''machineID'', Str ''M1''), (''cycle'', Num 1),
                     (''rul'', Num 5)],
                    [(''entryID'', Num 2), (''machineID'', Str ''M2''), (''cycle'', Num 1),
                     (''rul'', NaN)]]\<rparr>"
  by code_simp

end
